theory Spec2Isabelle
  imports Complex_Main
begin

section \<open>Data model\<close>

text \<open>
  The library converts latitude and longitude angles between decimal degrees (DD),
  degrees-minutes (DM) and degrees-minutes-seconds (DMS).  Its values are plain
  TypeScript objects whose numeric fields have type \<^verbatim>\<open>number\<close>.

  A \<^verbatim>\<open>number\<close> is modelled as a \<^typ>\<open>real\<close>: arithmetic is exact, so the rounding
  error of IEEE doubles (of the order of \<open>10\<^sup>-\<^sup>1\<^sup>3\<close> degrees here) and the overflow of a
  decimal literal of more than 308 digits are outside the model.  JavaScript's
  \<^verbatim>\<open>-0\<close> is \<open>0\<close>; every comparison the code makes (\<^verbatim>\<open>>= 0\<close>, \<^verbatim>\<open>< 0\<close>,
  \<^verbatim>\<open>Math.sign(x) || 1\<close>) treats the two alike.  The non-finite values appear only
  where the code tests for them, at the numeric input of \<^verbatim>\<open>parseToDD\<close>.
\<close>

datatype CoordinateType = LAT | LON

datatype Hemisphere = N | S | E | W

record DD =
  kind :: CoordinateType
  degrees :: real

record DM = DD +
  minutes :: real
  hemi :: "Hemisphere option"

record DMS = DM +
  seconds :: real

text \<open>
  Every \<^verbatim>\<open>throw new Error(...)\<close> of the source is a constructor, named after the
  message it carries:
  \<^item> \<open>InvalidNumber label\<close>: \<^verbatim>\<open>Invalid ${label}\<close> (\<^verbatim>\<open>ensureFinite\<close>);
  \<^item> \<open>UnsupportedInputType\<close>: \<^verbatim>\<open>Unsupported input type\<close>;
  \<^item> \<open>UnrecognizedFormat\<close>: \<^verbatim>\<open>Unrecognized coordinate format\<close>;
  \<^item> \<open>MinutesNotBelow60\<close>, \<open>SecondsNotBelow60\<close>: \<^verbatim>\<open>Minutes must be < 60\<close> and
    \<^verbatim>\<open>Seconds must be < 60\<close> (the parser);
  \<^item> \<open>MinutesOutOfRange\<close>, \<open>SecondsOutOfRange\<close>: \<^verbatim>\<open>Minutes must be in [0, 60)\<close> and
    \<^verbatim>\<open>Seconds must be in [0, 60)\<close> (the converters);
  \<^item> \<open>DegreesOutOfRange k d\<close>: \<^verbatim>\<open>${kind} degrees out of range: ${deg}\<close>
    (\<^verbatim>\<open>validateRange\<close>), the axis range error;
  \<^item> \<open>ToFixedRange\<close>: the \<^verbatim>\<open>RangeError\<close> of \<^verbatim>\<open>Number.prototype.toFixed\<close> for more
    than 100 fraction digits.
\<close>

datatype error =
    InvalidNumber string
  | UnsupportedInputType
  | UnrecognizedFormat
  | MinutesNotBelow60
  | SecondsNotBelow60
  | MinutesOutOfRange
  | SecondsOutOfRange
  | DegreesOutOfRange CoordinateType real
  | ToFixedRange

section \<open>Validation and sign helpers\<close>

text \<open>
  Modelled from the spec: the table \<^verbatim>\<open>DEG_MAX\<close> is imported from the module
  \<^verbatim>\<open>../data\<close>, which is not among the sources.  The spec gives the ranges
  \<open>[-90, 90]\<close> for latitude and \<open>[-180, 180]\<close> for longitude, and the tests reject
  \<open>91\<close> and \<open>181\<close> while accepting \<open>90\<close> and \<open>180\<close>.
\<close>

fun DEG_MAX :: "CoordinateType \<Rightarrow> real" where
  "DEG_MAX LAT = 90"
| "DEG_MAX LON = 180"

definition dirFromSign :: "CoordinateType \<Rightarrow> real \<Rightarrow> Hemisphere" where
  "dirFromSign k v =
     (if k = LAT then (if v \<ge> 0 then N else S)
      else (if v \<ge> 0 then E else W))"

definition applyHemiToSign :: "real \<Rightarrow> Hemisphere option \<Rightarrow> real" where
  "applyHemiToSign v h =
     (case h of
        None \<Rightarrow> v
      | Some x \<Rightarrow> if x = S \<or> x = W then - \<bar>v\<bar> else \<bar>v\<bar>)"

definition clampDegrees :: "CoordinateType \<Rightarrow> real \<Rightarrow> real" where
  "clampDegrees k deg =
     (let mx = DEG_MAX k in
      if deg > mx then mx
      else if deg < - mx then - mx
      else deg)"

definition validateRange :: "CoordinateType \<Rightarrow> real \<Rightarrow> error + unit" where
  "validateRange k deg =
     (let mx = DEG_MAX k in
      if deg < - mx \<or> deg > mx then Inl (DegreesOutOfRange k deg) else Inr ())"

section \<open>Built-in numeric operations\<close>

text \<open>\<^verbatim>\<open>Math.trunc\<close>: the integer part, rounding toward zero.\<close>

definition trunc :: "real \<Rightarrow> real" where
  "trunc x = (if x \<ge> 0 then of_int \<lfloor>x\<rfloor> else of_int \<lceil>x\<rceil>)"

text \<open>
  \<^verbatim>\<open>x.toFixed(d)\<close> picks the integer \<open>n\<close> for which \<open>n / 10\<^sup>d\<close> is closest to \<open>x\<close>,
  the larger one on a tie, after taking a negative sign off \<open>x\<close>; it raises a
  \<^verbatim>\<open>RangeError\<close> when \<open>d\<close> exceeds 100.  \<open>toFixedScaled\<close> is that integer for
  \<open>x \<ge> 0\<close>.
\<close>

definition toFixedScaled :: "real \<Rightarrow> nat \<Rightarrow> int" where
  "toFixedScaled x d = \<lfloor>x * 10 ^ d + 1 / 2\<rfloor>"

text \<open>
  \<^verbatim>\<open>+x.toFixed(d)\<close>: the decimal string read back as a number, which is
  \<open>n / 10\<^sup>d\<close> with the sign of \<open>x\<close>.  From \<open>10\<^sup>2\<^sup>1\<close> on \<^verbatim>\<open>toFixed\<close> returns the plain
  conversion of \<open>x\<close> to a string, which reads back as \<open>x\<close>.  The lemma
  \<open>toFixed_read_back\<close> below relates this to the string that \<open>toFixed\<close> builds.
\<close>

definition roundFixed :: "real \<Rightarrow> nat \<Rightarrow> error + real" where
  "roundFixed x d =
     (if d > 100 then Inl ToFixedRange
      else if \<bar>x\<bar> \<ge> 10 ^ 21 then Inr x
      else if x < 0 then Inr (- (of_int (toFixedScaled (- x) d) / 10 ^ d))
      else Inr (of_int (toFixedScaled x d) / 10 ^ d))"

section \<open>Converters\<close>

text \<open>
  The options object \<^verbatim>\<open>opts?: { decimals?: number; clamp?: boolean }\<close>: the object
  and each of its fields may be absent.  The number of decimals is a natural number
  (the spec's \<open>integer \<ge> 0\<close>).
\<close>

record ConvOpts =
  decimals :: "nat option"
  clamp :: "bool option"

definition opt_decimals :: "ConvOpts option \<Rightarrow> nat" where
  "opt_decimals opts = (case opts of None \<Rightarrow> 2 | Some p \<Rightarrow> (case decimals p of None \<Rightarrow> 2 | Some d \<Rightarrow> d))"

definition opt_clamp :: "ConvOpts option \<Rightarrow> bool" where
  "opt_clamp opts = (case opts of None \<Rightarrow> False | Some p \<Rightarrow> (case clamp p of None \<Rightarrow> False | Some b \<Rightarrow> b))"

definition ddToDM :: "DD \<Rightarrow> ConvOpts option \<Rightarrow> error + DM" where
  "ddToDM dd opts =
     (let dec = opt_decimals opts;
          degVal = (if opt_clamp opts then clampDegrees (kind dd) (degrees dd) else degrees dd);
          degInt = trunc degVal;
          frac = \<bar>degVal - degInt\<bar>
      in case roundFixed (frac * 60) dec of
           Inl e \<Rightarrow> Inl e
         | Inr mins \<Rightarrow>
             if mins \<ge> 60 then
               (let rolled = (if degInt \<ge> 0 then degInt + 1 else degInt - 1)
                in Inr \<lparr>kind = kind dd, degrees = \<bar>rolled\<bar>, minutes = 0,
                        hemi = Some (dirFromSign (kind dd) rolled)\<rparr>)
             else
               Inr \<lparr>kind = kind dd, degrees = \<bar>degInt\<bar>, minutes = mins,
                    hemi = Some (dirFromSign (kind dd) degVal)\<rparr>)"

definition ddToDMS :: "DD \<Rightarrow> ConvOpts option \<Rightarrow> error + DMS" where
  "ddToDMS dd opts =
     (let dec = opt_decimals opts;
          degVal = (if opt_clamp opts then clampDegrees (kind dd) (degrees dd) else degrees dd);
          degInt = trunc degVal;
          frac = \<bar>degVal - degInt\<bar>;
          mins0 = of_int \<lfloor>frac * 60\<rfloor>
      in case roundFixed (frac * 3600 - mins0 * 60) dec of
           Inl e \<Rightarrow> Inl e
         | Inr secs0 \<Rightarrow>
             (let degreesAbs0 = \<bar>degInt\<bar>;
                  secs = (if secs0 \<ge> 60 then 0 else secs0);
                  mins1 = (if secs0 \<ge> 60 then mins0 + 1 else mins0);
                  mins = (if mins1 \<ge> 60 then 0 else mins1);
                  degreesAbs = (if mins1 \<ge> 60 then degreesAbs0 + 1 else degreesAbs0)
              in Inr \<lparr>kind = kind dd, degrees = degreesAbs, minutes = mins,
                      hemi = Some (dirFromSign (kind dd) degVal), seconds = secs\<rparr>))"

definition dmToDD :: "DM \<Rightarrow> error + DD" where
  "dmToDD dm =
     (if minutes dm < 0 \<or> minutes dm \<ge> 60 then Inl MinutesOutOfRange
      else
        (let base = \<bar>degrees dm\<bar> + minutes dm / 60;
             signed = applyHemiToSign (if degrees dm < 0 then - base else base) (hemi dm)
         in case validateRange (kind dm) signed of
              Inl e \<Rightarrow> Inl e
            | Inr _ \<Rightarrow> Inr \<lparr>kind = kind dm, degrees = signed\<rparr>))"

definition dmsToDD :: "DMS \<Rightarrow> error + DD" where
  "dmsToDD dms =
     (if minutes dms < 0 \<or> minutes dms \<ge> 60 then Inl MinutesOutOfRange
      else if seconds dms < 0 \<or> seconds dms \<ge> 60 then Inl SecondsOutOfRange
      else
        (let base = \<bar>degrees dms\<bar> + minutes dms / 60 + seconds dms / 3600;
             signed = applyHemiToSign (if degrees dms < 0 then - base else base) (hemi dms)
         in case validateRange (kind dms) signed of
              Inl e \<Rightarrow> Inl e
            | Inr _ \<Rightarrow> Inr \<lparr>kind = kind dms, degrees = signed\<rparr>))"

section \<open>Strings and patterns\<close>

text \<open>
  A JavaScript string is a sequence of UTF-16 code units.  The model covers the
  strings whose code units lie in \<open>U+0000 .. U+00FF\<close>, one \<^typ>\<open>char\<close> each, which
  includes the degree sign \<open>U+00B0\<close>.  The patterns of the parser look only for ASCII
  digits, signs, the full stop and ASCII word characters.
\<close>

definition isDigit :: "char \<Rightarrow> bool" where
  "isDigit c = (let n = (of_char c :: nat) in 48 \<le> n \<and> n \<le> 57)"

text \<open>The code units a match of the number pattern can consist of.\<close>

definition isNumChar :: "char \<Rightarrow> bool" where
  "isNumChar c = (isDigit c \<or> c = CHR ''+'' \<or> c = CHR ''-'' \<or> c = CHR ''.'')"

text \<open>The class \<^verbatim>\<open>\w\<close>: ASCII letters, digits and the underscore.\<close>

definition isWordChar :: "char \<Rightarrow> bool" where
  "isWordChar c =
     (let n = (of_char c :: nat) in
      (48 \<le> n \<and> n \<le> 57) \<or> (65 \<le> n \<and> n \<le> 90) \<or> (97 \<le> n \<and> n \<le> 122) \<or> n = 95)"

text \<open>
  The white space and line terminators that \<^verbatim>\<open>trim\<close> removes, below \<open>U+0100\<close>:
  TAB, LF, VT, FF, CR, SPACE and NO-BREAK SPACE.
\<close>

definition isSpace :: "char \<Rightarrow> bool" where
  "isSpace c = ((of_char c :: nat) \<in> {9, 10, 11, 12, 13, 32, 160})"

definition trim :: "string \<Rightarrow> string" where
  "trim s = rev (dropWhile isSpace (rev (dropWhile isSpace s)))"

text \<open>
  \<^verbatim>\<open>toUpperCase\<close> on one code unit: \<open>a..z\<close> and the accented small letters
  \<open>U+00E0 .. U+00FE\<close> (without the division sign \<open>U+00F7\<close>) move down by 32, and the
  sharp s \<open>U+00DF\<close> becomes \<^verbatim>\<open>SS\<close>.  The upper-case forms of \<open>U+00B5\<close> and \<open>U+00FF\<close>
  lie beyond \<open>U+00FF\<close>; they are kept as they are, which no pattern of the parser
  can tell apart (all four are neither word characters, digits nor signs).
\<close>

definition upperChar :: "char \<Rightarrow> string" where
  "upperChar c =
     (let n = (of_char c :: nat) in
      if 97 \<le> n \<and> n \<le> 122 then [char_of (n - 32)]
      else if n = 223 then ''SS''
      else if 224 \<le> n \<and> n \<le> 254 \<and> n \<noteq> 247 then [char_of (n - 32)]
      else [c])"

definition toUpperCase :: "string \<Rightarrow> string" where
  "toUpperCase s = concat (map upperChar s)"

text \<open>
  One attempt of the pattern \<^verbatim>\<open>[+-]?\d+(?:\.\d+)?\<close> at the start of a string:
  the matched text and the rest, or \<open>None\<close>.  Each quantifier is greedy and nothing
  follows the optional group, so the first attempt of the matcher is the match.
\<close>

definition matchNumberAt :: "string \<Rightarrow> (string \<times> string) option" where
  "matchNumberAt s =
     (let sg = (case s of [] \<Rightarrow> [] | c # _ \<Rightarrow> if c = CHR ''+'' \<or> c = CHR ''-'' then [c] else []);
          s1 = drop (length sg) s;
          ds = takeWhile isDigit s1;
          s2 = dropWhile isDigit s1
      in if ds = [] then None
         else (case s2 of
                 [] \<Rightarrow> Some (sg @ ds, [])
               | c # s3 \<Rightarrow>
                   if c = CHR ''.'' \<and> takeWhile isDigit s3 \<noteq> []
                   then Some (sg @ ds @ [c] @ takeWhile isDigit s3, dropWhile isDigit s3)
                   else Some (sg @ ds, s2)))"

lemma matchNumberAt_shorter:
  assumes "matchNumberAt s = Some (m, r)"
  shows "length r < length s"
proof -
  define sg where "sg = (case s of [] \<Rightarrow> [] | c # _ \<Rightarrow> if c = CHR ''+'' \<or> c = CHR ''-'' then [c] else [])"
  define s1 where "s1 = drop (length sg) s"
  have ne: "takeWhile isDigit s1 \<noteq> []"
    using assms unfolding matchNumberAt_def sg_def s1_def Let_def
    by (auto split: if_splits)
  have l1: "length s1 \<le> length s" by (simp add: s1_def)
  have l2: "length (dropWhile isDigit s1) < length s1"
  proof -
    have "length (takeWhile isDigit s1) + length (dropWhile isDigit s1) = length s1"
      by (metis length_append takeWhile_dropWhile_id)
    moreover have "0 < length (takeWhile isDigit s1)" using ne by simp
    ultimately show ?thesis by linarith
  qed
  define s2 where "s2 = dropWhile isDigit s1"
  have m: "(case s2 of
              [] \<Rightarrow> Some (sg @ takeWhile isDigit s1, [])
            | c # s3 \<Rightarrow>
                if c = CHR ''.'' \<and> takeWhile isDigit s3 \<noteq> []
                then Some (sg @ takeWhile isDigit s1 @ [c] @ takeWhile isDigit s3, dropWhile isDigit s3)
                else Some (sg @ takeWhile isDigit s1, s2)) = Some (m, r)"
    using assms ne unfolding matchNumberAt_def Let_def sg_def [symmetric] s1_def [symmetric] s2_def [symmetric]
    by simp
  have "length r \<le> length s2"
  proof (cases s2)
    case Nil
    with m show ?thesis by simp
  next
    case (Cons c s3)
    with m have "r = dropWhile isDigit s3 \<or> r = c # s3"
      by (auto split: if_splits)
    moreover have "length (dropWhile isDigit s3) \<le> length s3"
      by (rule length_dropWhile_le)
    ultimately show ?thesis using Cons by auto
  qed
  then show ?thesis using l1 l2 unfolding s2_def by linarith
qed

text \<open>
  \<^verbatim>\<open>raw.match(/[+-]?\d+(?:\.\d+)?/g)\<close>: every match from left to right, the search
  resuming where the previous match ended, or one code unit further where none starts.
  No match at all is \<^verbatim>\<open>null\<close>, which \<^verbatim>\<open>?? []\<close> turns into the empty list.
\<close>

function matchAllNumbers :: "string \<Rightarrow> string list" where
  "matchAllNumbers [] = []"
| "matchAllNumbers (c # cs) =
     (case matchNumberAt (c # cs) of
        Some (m, r) \<Rightarrow> m # matchAllNumbers r
      | None \<Rightarrow> matchAllNumbers cs)"
  by pat_completeness auto
termination
proof (relation "measure length")
  show "wf (measure length)" by simp
next
  fix c cs x2 x y
  assume "matchNumberAt (c # cs) = Some x2" and "(x, y) = x2"
  then have "matchNumberAt (c # cs) = Some (x, y)" by simp
  then have "length y < length (c # cs)" by (rule matchNumberAt_shorter)
  then show "(y, c # cs) \<in> measure length" by simp
next
  fix c :: char and cs :: string
  show "(cs, c # cs) \<in> measure length" by simp
qed

text \<open>The pattern \<^verbatim>\<open>^[+-]?\d+(\.\d+)?$\<close>: the one match covers the whole string.\<close>

definition isPlainDecimal :: "string \<Rightarrow> bool" where
  "isPlainDecimal s = (case matchNumberAt s of Some (m, r) \<Rightarrow> r = [] | None \<Rightarrow> False)"

text \<open>
  \<^verbatim>\<open>raw.match(/\b([NSEW])\b/)\<close>: the first of the four letters that stands alone,
  with no word character before or after it.  The flag says whether the code unit
  before the current position is a word character.
\<close>

definition hemiOfChar :: "char \<Rightarrow> Hemisphere option" where
  "hemiOfChar c =
     (if c = CHR ''N'' then Some N
      else if c = CHR ''S'' then Some S
      else if c = CHR ''E'' then Some E
      else if c = CHR ''W'' then Some W
      else None)"

fun hemiScan :: "bool \<Rightarrow> string \<Rightarrow> Hemisphere option" where
  "hemiScan prev [] = None"
| "hemiScan prev (c # cs) =
     (if hemiOfChar c \<noteq> None \<and> \<not> prev \<and> (case cs of [] \<Rightarrow> True | d # _ \<Rightarrow> \<not> isWordChar d)
      then hemiOfChar c
      else hemiScan (isWordChar c) cs)"

definition hemiMatch :: "string \<Rightarrow> Hemisphere option" where
  "hemiMatch raw = hemiScan False raw"

text \<open>
  \<^verbatim>\<open>Number\<close> on a text of the shape \<^verbatim>\<open>[+-]?\d+(\.\d+)?\<close>: its decimal value.
\<close>

definition digitsValue :: "string \<Rightarrow> nat" where
  "digitsValue ds = foldl (\<lambda>a c. 10 * a + ((of_char c :: nat) - 48)) 0 ds"

definition decimalValue :: "string \<Rightarrow> real" where
  "decimalValue t =
     (let signed = (t \<noteq> [] \<and> (hd t = CHR ''+'' \<or> hd t = CHR ''-''));
          body = (if signed then tl t else t);
          ip = takeWhile isDigit body;
          fp = drop 1 (dropWhile isDigit body);
          v = real (digitsValue ip) + real (digitsValue fp) / 10 ^ length fp
      in if t \<noteq> [] \<and> hd t = CHR ''-'' then - v else v)"

section \<open>Parser\<close>

text \<open>
  What \<^verbatim>\<open>parseToDD\<close> can be handed at run time: a number, which may be \<^verbatim>\<open>NaN\<close> or
  infinite, a string, or a value of another type (the signature excludes the last,
  the code checks for it).
\<close>

datatype jsnumber = Finite real | NaN | PosInfinity | NegInfinity

datatype input = NumberIn jsnumber | StringIn string | OtherIn

text \<open>
  \<^verbatim>\<open>Number(s)\<close> for the strings the program hands to it, which all have the shape
  \<^verbatim>\<open>[+-]?\d+(\.\d+)?\<close>.  The other numeric literals of JavaScript (exponents, hexadecimal
  digits, the empty string) are mapped to \<^verbatim>\<open>NaN\<close> here; \<^verbatim>\<open>parseToDD\<close> never passes one.
\<close>

definition Number :: "string \<Rightarrow> jsnumber" where
  "Number s = (if isPlainDecimal s then Finite (decimalValue s) else NaN)"

definition ensureFinite :: "input \<Rightarrow> string \<Rightarrow> error + real" where
  "ensureFinite n label =
     (let v = (case n of StringIn s \<Rightarrow> Number (trim s) | NumberIn x \<Rightarrow> x | OtherIn \<Rightarrow> NaN)
      in case v of Finite r \<Rightarrow> Inr r | _ \<Rightarrow> Inl (InvalidNumber label))"

text \<open>
  The closing two statements of every branch of the parser:
  \<^verbatim>\<open>validateRange(kind, deg); return { kind, degrees: deg }\<close>.
\<close>

definition validated :: "CoordinateType \<Rightarrow> real \<Rightarrow> error + DD" where
  "validated k deg =
     (case validateRange k deg of
        Inl e \<Rightarrow> Inl e
      | Inr _ \<Rightarrow> Inr \<lparr>kind = k, degrees = deg\<rparr>)"

text \<open>\<^verbatim>\<open>Math.sign(degPart) || 1\<close>: the sign of a zero is falsy and gives \<open>1\<close>.\<close>

definition signOr1 :: "real \<Rightarrow> real" where
  "signOr1 x = (if sgn x = 0 then 1 else sgn x)"

text \<open>\<^verbatim>\<open>hemi === "S" || hemi === "W" ? -1 : 1\<close>\<close>

definition hemiSign :: "Hemisphere \<Rightarrow> real" where
  "hemiSign h = (if h = S \<or> h = W then - 1 else 1)"

text \<open>
  The statements of \<^verbatim>\<open>parseToDD\<close> from \<^verbatim>\<open>const raw = input.trim().toUpperCase()\<close> on: the
  hemisphere letter, the numeric tokens, and the dispatch on their count.
\<close>

definition tokenPath :: "string \<Rightarrow> CoordinateType \<Rightarrow> error + DD" where
  "tokenPath s k =
     (let raw = toUpperCase (trim s);
          hm = hemiMatch raw;
          nums = map decimalValue (matchAllNumbers raw)
      in case nums of
           [] \<Rightarrow> Inl UnrecognizedFormat
         | [d] \<Rightarrow> validated k (applyHemiToSign d hm)
         | [degPart, minPart] \<Rightarrow>
             (let mins = \<bar>minPart\<bar> in
              if mins \<ge> 60 then Inl MinutesNotBelow60
              else
                (let degAbs = trunc \<bar>degPart\<bar>;
                     sign = (case hm of None \<Rightarrow> signOr1 degPart | Some h \<Rightarrow> hemiSign h)
                 in validated k (sign * (degAbs + mins / 60))))
         | degPart # minPart # secPart # _ \<Rightarrow>
             (let mins = \<bar>minPart\<bar>; secs = \<bar>secPart\<bar> in
              if mins \<ge> 60 then Inl MinutesNotBelow60
              else if secs \<ge> 60 then Inl SecondsNotBelow60
              else
                (let degAbs = trunc \<bar>degPart\<bar>;
                     sign = (case hm of None \<Rightarrow> signOr1 degPart | Some h \<Rightarrow> hemiSign h)
                 in validated k (sign * (degAbs + mins / 60 + secs / 3600)))))"

definition parseToDD :: "input \<Rightarrow> CoordinateType \<Rightarrow> error + DD" where
  "parseToDD inp k =
     (if (case inp of NumberIn _ \<Rightarrow> True | StringIn s \<Rightarrow> isPlainDecimal (trim s) | OtherIn \<Rightarrow> False)
      then
        (case ensureFinite inp ''decimal degrees'' of
           Inl e \<Rightarrow> Inl e
         | Inr d \<Rightarrow> validated k d)
      else
        (case inp of
           StringIn s \<Rightarrow> tokenPath s k
         | _ \<Rightarrow> Inl UnsupportedInputType))"

text \<open>
  The composed degree value of the spec's parsing algorithm (its section 4.2), written
  from the spec's words: what each step forms before the range of the axis is
  validated.  A number or a plain signed decimal is coerced to a finite real; one
  numeric token takes the sign of the hemisphere letter; two tokens compose
  \<open>sign * (degreeMagnitude + minutes / 60)\<close> and three or more
  \<open>sign * (degreeMagnitude + minutes / 60 + seconds / 3600)\<close>, where the magnitude is
  the truncated degree token and the sign is the hemisphere's if a letter is present
  and the degree token's otherwise, zero counting as positive.  An input that fails
  before this point (not finite, no token, minutes or seconds not below 60, neither
  string nor number) has no composed value.
\<close>

definition composedDegrees :: "input \<Rightarrow> error + real" where
  "composedDegrees inp =
     (case inp of
        NumberIn x \<Rightarrow> (case x of Finite r \<Rightarrow> Inr r | _ \<Rightarrow> Inl (InvalidNumber ''decimal degrees''))
      | OtherIn \<Rightarrow> Inl UnsupportedInputType
      | StringIn s \<Rightarrow>
          if isPlainDecimal (trim s) then Inr (decimalValue (trim s))
          else
            (let raw = toUpperCase (trim s);
                 hm = hemiMatch raw;
                 nums = map decimalValue (matchAllNumbers raw)
             in case nums of
                  [] \<Rightarrow> Inl UnrecognizedFormat
                | [d] \<Rightarrow> Inr (applyHemiToSign d hm)
                | [d, m] \<Rightarrow>
                    if \<bar>m\<bar> \<ge> 60 then Inl MinutesNotBelow60
                    else Inr ((case hm of Some h \<Rightarrow> hemiSign h | None \<Rightarrow> if d < 0 then - 1 else 1)
                              * (trunc \<bar>d\<bar> + \<bar>m\<bar> / 60))
                | d # m # sc # _ \<Rightarrow>
                    if \<bar>m\<bar> \<ge> 60 then Inl MinutesNotBelow60
                    else if \<bar>sc\<bar> \<ge> 60 then Inl SecondsNotBelow60
                    else Inr ((case hm of Some h \<Rightarrow> hemiSign h | None \<Rightarrow> if d < 0 then - 1 else 1)
                              * (trunc \<bar>d\<bar> + \<bar>m\<bar> / 60 + \<bar>sc\<bar> / 3600))))"

section \<open>Formatters\<close>

text \<open>The decimal digits of a natural number, most significant first.\<close>

fun digitsOf :: "nat \<Rightarrow> string" where
  "digitsOf n = (if n < 10 then [char_of (48 + n)] else digitsOf (n div 10) @ [char_of (48 + n mod 10)])"

declare digitsOf.simps [simp del]

text \<open>
  The conversion of a number to a string inside a template literal.  An integer of
  magnitude below \<open>10\<^sup>2\<^sup>1\<close> is written with all its digits.  For every other value
  JavaScript writes the shortest decimal that reads back as the same double, which
  depends on the binary representation: the parameter \<open>dtoa\<close> stands for that
  rendering, and nothing is assumed about it.
\<close>

definition numberToString :: "(real \<Rightarrow> string) \<Rightarrow> real \<Rightarrow> string" where
  "numberToString dtoa x =
     (if of_int \<lfloor>x\<rfloor> = x \<and> \<bar>x\<bar> < 10 ^ 21
      then (if x < 0 then ''-'' else []) @ digitsOf (nat \<lfloor>\<bar>x\<bar>\<rfloor>)
      else dtoa x)"

text \<open>
  \<^verbatim>\<open>x.toFixed(d)\<close>: a \<^verbatim>\<open>RangeError\<close> beyond 100 digits; the plain conversion from
  \<open>10\<^sup>2\<^sup>1\<close> on; otherwise the digits of the scaled, rounded magnitude, padded with
  zeros to more than \<open>d\<close> digits, the point placed before the last \<open>d\<close> of them.
\<close>

definition fixedDigits :: "nat \<Rightarrow> nat \<Rightarrow> string" where
  "fixedDigits n d =
     (let m0 = digitsOf n;
          m1 = (if d \<noteq> 0 \<and> length m0 \<le> d then replicate (d + 1 - length m0) (CHR ''0'') @ m0 else m0)
      in if d \<noteq> 0
         then take (length m1 - d) m1 @ ''.'' @ drop (length m1 - d) m1
         else m1)"

definition toFixed :: "(real \<Rightarrow> string) \<Rightarrow> real \<Rightarrow> nat \<Rightarrow> error + string" where
  "toFixed dtoa x d =
     (if d > 100 then Inl ToFixedRange
      else if \<bar>x\<bar> \<ge> 10 ^ 21 then Inr (numberToString dtoa x)
      else Inr ((if x < 0 then ''-'' else []) @ fixedDigits (nat (toFixedScaled \<bar>x\<bar> d)) d))"

definition hemiString :: "Hemisphere \<Rightarrow> string" where
  "hemiString h = (case h of N \<Rightarrow> ''N'' | S \<Rightarrow> ''S'' | E \<Rightarrow> ''E'' | W \<Rightarrow> ''W'')"

text \<open>The degree sign \<open>U+00B0\<close>, the apostrophe and the double quote of the templates.\<close>

definition degreeSign :: char where
  "degreeSign = CHR 0xB0"

definition apostrophe :: char where
  "apostrophe = CHR 0x27"

definition doubleQuote :: char where
  "doubleQuote = CHR 0x22"

definition formatDM :: "(real \<Rightarrow> string) \<Rightarrow> DM \<Rightarrow> nat option \<Rightarrow> error + string" where
  "formatDM dtoa dm dec =
     (let h = (case hemi dm of Some x \<Rightarrow> x | None \<Rightarrow> dirFromSign (kind dm) (degrees dm))
      in case toFixed dtoa (minutes dm) (case dec of None \<Rightarrow> 2 | Some d \<Rightarrow> d) of
           Inl e \<Rightarrow> Inl e
         | Inr ms \<Rightarrow>
             Inr (numberToString dtoa \<bar>degrees dm\<bar> @ [degreeSign] @ '' '' @ ms
                  @ [apostrophe] @ '' '' @ hemiString h))"

definition formatDMS :: "(real \<Rightarrow> string) \<Rightarrow> DMS \<Rightarrow> nat option \<Rightarrow> error + string" where
  "formatDMS dtoa dms dec =
     (let h = (case hemi dms of Some x \<Rightarrow> x | None \<Rightarrow> dirFromSign (kind dms) (degrees dms))
      in case toFixed dtoa (seconds dms) (case dec of None \<Rightarrow> 2 | Some d \<Rightarrow> d) of
           Inl e \<Rightarrow> Inl e
         | Inr ss \<Rightarrow>
             Inr (numberToString dtoa \<bar>degrees dms\<bar> @ [degreeSign] @ '' ''
                  @ numberToString dtoa (minutes dms) @ [apostrophe] @ '' ''
                  @ ss @ [doubleQuote] @ '' '' @ hemiString h))"

definition formatDD :: "(real \<Rightarrow> string) \<Rightarrow> DD \<Rightarrow> nat option \<Rightarrow> error + string" where
  "formatDD dtoa dd dec =
     (let h = dirFromSign (kind dd) (degrees dd)
      in case toFixed dtoa \<bar>degrees dd\<bar> (case dec of None \<Rightarrow> 5 | Some d \<Rightarrow> d) of
           Inl e \<Rightarrow> Inl e
         | Inr ds \<Rightarrow> Inr (ds @ [degreeSign] @ '' '' @ hemiString h))"

section \<open>The parser and the conversions to DD on doubles\<close>

text \<open>
  The definitions above compute with exact reals.  Two properties turn on what that leaves
  out: a decimal literal is rounded to the nearest double and overflows to
  \<^verbatim>\<open>Infinity\<close> when it is too large, every division and addition rounds, and a field
  of a DM or DMS object may hold \<^verbatim>\<open>NaN\<close> or an infinity.  This section models
  \<^verbatim>\<open>parseToDD\<close>, \<^verbatim>\<open>dmToDD\<close> and \<^verbatim>\<open>dmsToDD\<close> once more, over \<^typ>\<open>jsnumber\<close>.

  The rounding of an exact result to a double is the parameter \<open>rnd\<close>: \<open>Some r\<close> is the
  double the result rounds to, \<open>None\<close> says that it overflows, to the infinity of its
  sign.  The theorems hold for every \<open>rnd\<close> that keeps the sign of what it rounds
  (\<open>signPreserving\<close>), as rounding to the nearest double does; with \<open>rnd = Some\<close>
  nothing is rounded and nothing overflows.  As before \<^verbatim>\<open>-0\<close> is \<open>0\<close>: the functions
  modelled here compare and add zeros but never divide by one.  The names of this
  section carry a prime.
\<close>

type_synonym rounding = "real \<Rightarrow> real option"

definition toDouble :: "rounding \<Rightarrow> real \<Rightarrow> jsnumber" where
  "toDouble rnd x =
     (case rnd x of
        Some r \<Rightarrow> Finite r
      | None \<Rightarrow> if x < 0 then NegInfinity else PosInfinity)"

definition signPreserving :: "rounding \<Rightarrow> bool" where
  "signPreserving rnd =
     (\<forall>x r. rnd x = Some r \<longrightarrow> (0 \<le> x \<longrightarrow> 0 \<le> r) \<and> (x \<le> 0 \<longrightarrow> r \<le> 0))"

text \<open>\<^verbatim>\<open>Math.abs\<close>, unary minus and \<^verbatim>\<open>Math.trunc\<close>, which are exact on doubles.\<close>

fun num_abs :: "jsnumber \<Rightarrow> jsnumber" where
  "num_abs (Finite r) = Finite \<bar>r\<bar>"
| "num_abs NaN = NaN"
| "num_abs PosInfinity = PosInfinity"
| "num_abs NegInfinity = PosInfinity"

fun num_neg :: "jsnumber \<Rightarrow> jsnumber" where
  "num_neg (Finite r) = Finite (- r)"
| "num_neg NaN = NaN"
| "num_neg PosInfinity = NegInfinity"
| "num_neg NegInfinity = PosInfinity"

fun num_trunc :: "jsnumber \<Rightarrow> jsnumber" where
  "num_trunc (Finite r) = Finite (trunc r)"
| "num_trunc x = x"

text \<open>The comparisons \<^verbatim>\<open><\<close>, \<^verbatim>\<open>>\<close> and \<^verbatim>\<open>>=\<close>: every comparison with \<^verbatim>\<open>NaN\<close> is false.\<close>

fun num_lt :: "jsnumber \<Rightarrow> jsnumber \<Rightarrow> bool" where
  "num_lt (Finite a) (Finite b) = (a < b)"
| "num_lt (Finite a) PosInfinity = True"
| "num_lt NegInfinity (Finite b) = True"
| "num_lt NegInfinity PosInfinity = True"
| "num_lt x y = False"

definition num_gt :: "jsnumber \<Rightarrow> jsnumber \<Rightarrow> bool" where
  "num_gt x y = num_lt y x"

fun num_ge :: "jsnumber \<Rightarrow> jsnumber \<Rightarrow> bool" where
  "num_ge NaN y = False"
| "num_ge x NaN = False"
| "num_ge x y = (\<not> num_lt x y)"

text \<open>
  Addition and multiplication: the exact result of two finite operands is rounded;
  \<open>\<infinity> - \<infinity>\<close> and \<open>0 * \<infinity>\<close> are \<^verbatim>\<open>NaN\<close>.
\<close>

fun num_add :: "rounding \<Rightarrow> jsnumber \<Rightarrow> jsnumber \<Rightarrow> jsnumber" where
  "num_add rnd (Finite a) (Finite b) = toDouble rnd (a + b)"
| "num_add rnd NaN y = NaN"
| "num_add rnd x NaN = NaN"
| "num_add rnd PosInfinity NegInfinity = NaN"
| "num_add rnd NegInfinity PosInfinity = NaN"
| "num_add rnd PosInfinity y = PosInfinity"
| "num_add rnd x PosInfinity = PosInfinity"
| "num_add rnd NegInfinity y = NegInfinity"
| "num_add rnd x NegInfinity = NegInfinity"

fun num_mul :: "rounding \<Rightarrow> jsnumber \<Rightarrow> jsnumber \<Rightarrow> jsnumber" where
  "num_mul rnd (Finite a) (Finite b) = toDouble rnd (a * b)"
| "num_mul rnd NaN y = NaN"
| "num_mul rnd x NaN = NaN"
| "num_mul rnd (Finite a) y = (if a = 0 then NaN else if 0 < a then y else num_neg y)"
| "num_mul rnd x (Finite b) = (if b = 0 then NaN else if 0 < b then x else num_neg x)"
| "num_mul rnd PosInfinity y = y"
| "num_mul rnd NegInfinity y = num_neg y"

text \<open>
  Division by a positive constant; the program divides by 60 and by 3600 only.
\<close>

fun num_div :: "rounding \<Rightarrow> jsnumber \<Rightarrow> real \<Rightarrow> jsnumber" where
  "num_div rnd (Finite a) c = toDouble rnd (a / c)"
| "num_div rnd x c = x"

text \<open>The objects, with fields that hold any \<^verbatim>\<open>number\<close>, and the errors.\<close>

record DD' =
  kind' :: CoordinateType
  degrees' :: jsnumber



datatype error' =
    InvalidNumber' string
  | UnsupportedInputType'
  | UnrecognizedFormat'
  | MinutesNotBelow60'
  | SecondsNotBelow60'
  | MinutesOutOfRange'
  | SecondsOutOfRange'
  | DegreesOutOfRange' CoordinateType jsnumber

text \<open>
  \<^verbatim>\<open>Number(s)\<close> on a text of the shape \<^verbatim>\<open>[+-]?\d+(\.\d+)?\<close>: its decimal value rounded
  to a double, or an infinity.  As for \<open>Number\<close> above, other texts are mapped to
  \<^verbatim>\<open>NaN\<close>; the program passes none.
\<close>

definition Number' :: "rounding \<Rightarrow> string \<Rightarrow> jsnumber" where
  "Number' rnd s = (if isPlainDecimal s then toDouble rnd (decimalValue s) else NaN)"

definition ensureFinite' :: "rounding \<Rightarrow> input \<Rightarrow> string \<Rightarrow> error' + jsnumber" where
  "ensureFinite' rnd n label =
     (let v = (case n of StringIn s \<Rightarrow> Number' rnd (trim s) | NumberIn x \<Rightarrow> x | OtherIn \<Rightarrow> NaN)
      in case v of Finite r \<Rightarrow> Inr v | _ \<Rightarrow> Inl (InvalidNumber' label))"

definition applyHemiToSign' :: "jsnumber \<Rightarrow> Hemisphere option \<Rightarrow> jsnumber" where
  "applyHemiToSign' v h =
     (case h of
        None \<Rightarrow> v
      | Some x \<Rightarrow> if x = S \<or> x = W then num_neg (num_abs v) else num_abs v)"

definition validateRange' :: "CoordinateType \<Rightarrow> jsnumber \<Rightarrow> error' + unit" where
  "validateRange' k deg =
     (let mx = Finite (DEG_MAX k) in
      if num_lt deg (num_neg mx) \<or> num_gt deg mx then Inl (DegreesOutOfRange' k deg) else Inr ())"

definition validated' :: "CoordinateType \<Rightarrow> jsnumber \<Rightarrow> error' + DD'" where
  "validated' k deg =
     (case validateRange' k deg of
        Inl e \<Rightarrow> Inl e
      | Inr _ \<Rightarrow> Inr \<lparr>kind' = k, degrees' = deg\<rparr>)"

text \<open>
  \<^verbatim>\<open>Math.sign(degPart) || 1\<close>: the sign of a zero and of \<^verbatim>\<open>NaN\<close> is falsy and gives 1.
\<close>

fun signOr1' :: "jsnumber \<Rightarrow> jsnumber" where
  "signOr1' (Finite r) = Finite (if sgn r = 0 then 1 else sgn r)"
| "signOr1' NaN = Finite 1"
| "signOr1' PosInfinity = Finite 1"
| "signOr1' NegInfinity = Finite (- 1)"

definition tokenPath' :: "rounding \<Rightarrow> string \<Rightarrow> CoordinateType \<Rightarrow> error' + DD'" where
  "tokenPath' rnd s k =
     (let raw = toUpperCase (trim s);
          hm = hemiMatch raw;
          nums = map (Number' rnd) (matchAllNumbers raw)
      in case nums of
           [] \<Rightarrow> Inl UnrecognizedFormat'
         | [d] \<Rightarrow> validated' k (applyHemiToSign' d hm)
         | [degPart, minPart] \<Rightarrow>
             (let mins = num_abs minPart in
              if num_ge mins (Finite 60) then Inl MinutesNotBelow60'
              else
                (let degAbs = num_trunc (num_abs degPart);
                     sign = (case hm of None \<Rightarrow> signOr1' degPart | Some h \<Rightarrow> Finite (hemiSign h))
                 in validated' k (num_mul rnd sign (num_add rnd degAbs (num_div rnd mins 60)))))
         | degPart # minPart # secPart # _ \<Rightarrow>
             (let mins = num_abs minPart; secs = num_abs secPart in
              if num_ge mins (Finite 60) then Inl MinutesNotBelow60'
              else if num_ge secs (Finite 60) then Inl SecondsNotBelow60'
              else
                (let degAbs = num_trunc (num_abs degPart);
                     sign = (case hm of None \<Rightarrow> signOr1' degPart | Some h \<Rightarrow> Finite (hemiSign h))
                 in validated' k
                      (num_mul rnd sign
                         (num_add rnd (num_add rnd degAbs (num_div rnd mins 60))
                            (num_div rnd secs 3600))))))"

definition parseToDD' :: "rounding \<Rightarrow> input \<Rightarrow> CoordinateType \<Rightarrow> error' + DD'" where
  "parseToDD' rnd inp k =
     (if (case inp of NumberIn _ \<Rightarrow> True | StringIn s \<Rightarrow> isPlainDecimal (trim s) | OtherIn \<Rightarrow> False)
      then
        (case ensureFinite' rnd inp ''decimal degrees'' of
           Inl e \<Rightarrow> Inl e
         | Inr d \<Rightarrow> validated' k d)
      else
        (case inp of
           StringIn s \<Rightarrow> tokenPath' rnd s k
         | _ \<Rightarrow> Inl UnsupportedInputType'))"

text \<open>
  The composed degree value of the spec's parsing algorithm (its section 4.2), written
  from the spec's words as \<open>composedDegrees\<close> above, in double arithmetic: what each
  step forms before the range of the axis is validated.  An input that fails before this point (not finite,
  no token, minutes or seconds not below 60, neither string nor number) has no
  composed value.
\<close>

definition composedDegrees' :: "rounding \<Rightarrow> input \<Rightarrow> error' + jsnumber" where
  "composedDegrees' rnd inp =
     (case inp of
        NumberIn x \<Rightarrow> (case x of Finite r \<Rightarrow> Inr x | _ \<Rightarrow> Inl (InvalidNumber' ''decimal degrees''))
      | OtherIn \<Rightarrow> Inl UnsupportedInputType'
      | StringIn s \<Rightarrow>
          if isPlainDecimal (trim s) then
            (case toDouble rnd (decimalValue (trim s)) of
               Finite r \<Rightarrow> Inr (Finite r)
             | _ \<Rightarrow> Inl (InvalidNumber' ''decimal degrees''))
          else
            (let raw = toUpperCase (trim s);
                 hm = hemiMatch raw;
                 nums = map (Number' rnd) (matchAllNumbers raw)
             in case nums of
                  [] \<Rightarrow> Inl UnrecognizedFormat'
                | [d] \<Rightarrow> Inr (applyHemiToSign' d hm)
                | [d, m] \<Rightarrow>
                    if num_ge (num_abs m) (Finite 60) then Inl MinutesNotBelow60'
                    else Inr (num_mul rnd
                                (case hm of Some h \<Rightarrow> Finite (hemiSign h) | None \<Rightarrow> signOr1' d)
                                (num_add rnd (num_trunc (num_abs d)) (num_div rnd (num_abs m) 60)))
                | d # m # sc # _ \<Rightarrow>
                    if num_ge (num_abs m) (Finite 60) then Inl MinutesNotBelow60'
                    else if num_ge (num_abs sc) (Finite 60) then Inl SecondsNotBelow60'
                    else Inr (num_mul rnd
                                (case hm of Some h \<Rightarrow> Finite (hemiSign h) | None \<Rightarrow> signOr1' d)
                                (num_add rnd
                                   (num_add rnd (num_trunc (num_abs d)) (num_div rnd (num_abs m) 60))
                                   (num_div rnd (num_abs sc) 3600)))))"

text \<open>
  The two ranges as predicates: a number lies in the range of the axis
  when it is finite and of magnitude at most \<open>DEG_MAX\<close>; it lies in \<open>[0, 60)\<close> when it is
  finite, not negative and below 60.  \<^verbatim>\<open>NaN\<close> and the infinities lie in neither.
\<close>

definition inAxisRange :: "CoordinateType \<Rightarrow> jsnumber \<Rightarrow> bool" where
  "inAxisRange k v = (case v of Finite r \<Rightarrow> \<bar>r\<bar> \<le> DEG_MAX k | _ \<Rightarrow> False)"

definition in0to60 :: "jsnumber \<Rightarrow> bool" where
  "in0to60 x = (case x of Finite r \<Rightarrow> 0 \<le> r \<and> r < 60 | _ \<Rightarrow> False)"



text \<open>A number that is neither negative nor \<^verbatim>\<open>NaN\<close>; used in the proofs.\<close>

definition nonNegative :: "jsnumber \<Rightarrow> bool" where
  "nonNegative x = (case x of Finite r \<Rightarrow> 0 \<le> r | PosInfinity \<Rightarrow> True | _ \<Rightarrow> False)"

section \<open>Evaluating the definitions\<close>

lemmas conv_defs = ddToDM_def ddToDMS_def dmToDD_def dmsToDD_def opt_decimals_def opt_clamp_def
  trunc_def roundFixed_def toFixedScaled_def dirFromSign_def clampDegrees_def
  applyHemiToSign_def validateRange_def Let_def

lemmas parse_defs = parseToDD_def tokenPath_def isPlainDecimal_def matchNumberAt_def isDigit_def trim_def
  isSpace_def ensureFinite_def Number_def decimalValue_def digitsValue_def validated_def
  validateRange_def toUpperCase_def upperChar_def hemiMatch_def hemiOfChar_def isWordChar_def
  applyHemiToSign_def signOr1_def hemiSign_def trunc_def Let_def

lemmas fmt_defs = formatDD_def formatDM_def formatDMS_def toFixed_def fixedDigits_def toFixedScaled_def
  numberToString_def hemiString_def dirFromSign_def Let_def

section \<open>Facts about the patterns\<close>

lemma matchNumberAt_split:
  assumes "matchNumberAt s = Some (m, r)"
  shows "s = m @ r \<and> m \<noteq> [] \<and> (\<forall>c\<in>set m. isNumChar c)"
proof -
  define sg where "sg = (case s of [] \<Rightarrow> [] | c # _ \<Rightarrow> if c = CHR ''+'' \<or> c = CHR ''-'' then [c] else [])"
  define s1 where "s1 = drop (length sg) s"
  define ds where "ds = takeWhile isDigit s1"
  define s2 where "s2 = dropWhile isDigit s1"
  have s: "s = sg @ s1" unfolding s1_def sg_def by (cases s) auto
  have sgc: "\<forall>c\<in>set sg. isNumChar c" unfolding sg_def isNumChar_def by (cases s) auto
  have s1: "s1 = ds @ s2" unfolding ds_def s2_def by simp
  have dsc: "\<forall>c\<in>set ds. isNumChar c" unfolding ds_def isNumChar_def
    by (auto dest: set_takeWhileD)
  have m: "(if ds = [] then None
            else (case s2 of
              [] \<Rightarrow> Some (sg @ ds, [])
            | c # s3 \<Rightarrow>
                if c = CHR ''.'' \<and> takeWhile isDigit s3 \<noteq> []
                then Some (sg @ ds @ [c] @ takeWhile isDigit s3, dropWhile isDigit s3)
                else Some (sg @ ds, s2))) = Some (m, r)"
    using assms unfolding matchNumberAt_def Let_def sg_def [symmetric] s1_def [symmetric]
      s2_def [symmetric] ds_def [symmetric]
    by simp
  then have ne: "ds \<noteq> []" by (auto split: if_splits)
  show ?thesis
  proof (cases s2)
    case Nil
    with m ne have "m = sg @ ds" "r = []" by auto
    then show ?thesis using s s1 Nil ne sgc dsc by auto
  next
    case (Cons c s3)
    show ?thesis
    proof (cases "c = CHR ''.'' \<and> takeWhile isDigit s3 \<noteq> []")
      case True
      with m ne Cons have mr: "m = sg @ ds @ [c] @ takeWhile isDigit s3" "r = dropWhile isDigit s3"
        by auto
      have "s3 = takeWhile isDigit s3 @ dropWhile isDigit s3" by simp
      then have "s = m @ r" using s s1 Cons mr by simp
      moreover have "\<forall>c\<in>set (takeWhile isDigit s3). isNumChar c"
        unfolding isNumChar_def by (auto dest: set_takeWhileD)
      ultimately show ?thesis using mr ne sgc dsc True by (auto simp: isNumChar_def)
    next
      case False
      with m ne Cons have "m = sg @ ds" "r = s2" by auto
      then show ?thesis using s s1 ne sgc dsc by auto
    qed
  qed
qed

lemma upperChar_numChar: "isNumChar c \<Longrightarrow> upperChar c = [c]"
  by (auto simp: isNumChar_def isDigit_def upperChar_def Let_def)

lemma toUpperCase_numChars: "\<forall>c\<in>set t. isNumChar c \<Longrightarrow> toUpperCase t = t"
  by (induction t) (auto simp: toUpperCase_def upperChar_numChar)

lemma hemiOfChar_numChar: "isNumChar c \<Longrightarrow> hemiOfChar c = None"
  by (auto simp: isNumChar_def isDigit_def hemiOfChar_def Let_def)

lemma hemiScan_numChars: "\<forall>c\<in>set t. isNumChar c \<Longrightarrow> hemiScan b t = None"
  by (induction t arbitrary: b) (auto simp: hemiOfChar_numChar)

lemma plain_decimal_tokens:
  assumes "isPlainDecimal t"
  shows "toUpperCase t = t" and "matchAllNumbers t = [t]" and "hemiMatch t = None"
proof -
  from assms obtain m where m: "matchNumberAt t = Some (m, [])"
    unfolding isPlainDecimal_def by (auto split: option.splits)
  from matchNumberAt_split [OF m] have t: "t = m" "t \<noteq> []" and cs: "\<forall>c\<in>set t. isNumChar c"
    by auto
  show "toUpperCase t = t" using cs by (rule toUpperCase_numChars)
  show "hemiMatch t = None" unfolding hemiMatch_def using cs by (rule hemiScan_numChars)
  from t obtain c cs' where "t = c # cs'" by (cases t) auto
  then show "matchAllNumbers t = [t]" using m t by simp
qed

text \<open>
  A plain signed decimal takes the same way through the token dispatch as through the
  fast path: it is its own single token and carries no hemisphere letter.
\<close>

lemma parseToDD_string: "parseToDD (StringIn s) k = tokenPath s k"
proof (cases "isPlainDecimal (trim s)")
  case True
  note pd = plain_decimal_tokens [OF True]
  have "parseToDD (StringIn s) k = validated k (decimalValue (trim s))"
    using True by (simp add: parseToDD_def ensureFinite_def Number_def)
  moreover have "tokenPath s k = validated k (decimalValue (trim s))"
    unfolding tokenPath_def by (simp add: pd applyHemiToSign_def)
  ultimately show ?thesis by simp
next
  case False
  then show ?thesis by (simp add: parseToDD_def)
qed

lemma signOr1_cases: "signOr1 d = (if d < 0 then - 1 else 1)"
  by (simp add: signOr1_def sgn_if)

lemma validated_cases:
  "validated k v = (if \<bar>v\<bar> \<le> DEG_MAX k then Inr \<lparr>kind = k, degrees = v\<rparr> else Inl (DegreesOutOfRange k v))"
  by (cases k) (auto simp: validated_def validateRange_def Let_def)

lemma parseToDD_composed:
  "parseToDD inp k = (case composedDegrees inp of Inl e \<Rightarrow> Inl e | Inr v \<Rightarrow> validated k v)"
proof (cases inp)
  case (NumberIn x)
  then show ?thesis
    by (cases x) (simp_all add: parseToDD_def ensureFinite_def composedDegrees_def)
next
  case (StringIn s)
  show ?thesis
  proof (cases "isPlainDecimal (trim s)")
    case True
    then show ?thesis using StringIn
      by (simp add: parseToDD_def ensureFinite_def Number_def composedDegrees_def)
  next
    case False
    then show ?thesis using StringIn
      by (simp add: parseToDD_def tokenPath_def composedDegrees_def Let_def signOr1_cases
               split: list.splits option.splits)
  qed
next
  case OtherIn
  then show ?thesis
    by (simp add: parseToDD_def composedDegrees_def)
qed


lemma trunc_abs_nonneg: "0 \<le> trunc \<bar>x\<bar>"
  by (simp add: trunc_def)

lemma applyHemiToSign_Some: "applyHemiToSign v (Some h) = hemiSign h * \<bar>v\<bar>"
  by (simp add: applyHemiToSign_def hemiSign_def)

lemma tokenPath_hemi:
  assumes hm: "hemiMatch (toUpperCase (trim s)) = Some h"
  shows "(\<exists>e. tokenPath s k = Inl e)
         \<or> (\<exists>mag. 0 \<le> mag \<and> tokenPath s k = validated k (hemiSign h * mag))"
proof -
  define nums where "nums = map decimalValue (matchAllNumbers (toUpperCase (trim s)))"
  have tp: "tokenPath s k =
      (case nums of
         [] \<Rightarrow> Inl UnrecognizedFormat
       | [d] \<Rightarrow> validated k (hemiSign h * \<bar>d\<bar>)
       | [degPart, minPart] \<Rightarrow>
           if \<bar>minPart\<bar> \<ge> 60 then Inl MinutesNotBelow60
           else validated k (hemiSign h * (trunc \<bar>degPart\<bar> + \<bar>minPart\<bar> / 60))
       | degPart # minPart # secPart # _ \<Rightarrow>
           if \<bar>minPart\<bar> \<ge> 60 then Inl MinutesNotBelow60
           else if \<bar>secPart\<bar> \<ge> 60 then Inl SecondsNotBelow60
           else validated k (hemiSign h * (trunc \<bar>degPart\<bar> + \<bar>minPart\<bar> / 60 + \<bar>secPart\<bar> / 3600)))"
    unfolding tokenPath_def Let_def hm nums_def [symmetric]
    by (simp add: applyHemiToSign_Some split: list.splits)
  have nn: "0 \<le> trunc \<bar>x\<bar> + \<bar>y\<bar> / 60" "0 \<le> trunc \<bar>x\<bar> + \<bar>y\<bar> / 60 + \<bar>z\<bar> / 3600" for x y z :: real
    using trunc_abs_nonneg [of x] by simp_all
  show ?thesis
  proof (cases nums)
    case Nil
    then show ?thesis by (simp add: tp)
  next
    case (Cons d r1)
    note c1 = Cons
    show ?thesis
    proof (cases r1)
      case Nil
      have "0 \<le> \<bar>d\<bar> \<and> tokenPath s k = validated k (hemiSign h * \<bar>d\<bar>)"
        using c1 Nil tp by simp
      then show ?thesis by blast
    next
      case (Cons m r2)
      note c2 = Cons
      show ?thesis
      proof (cases "\<bar>m\<bar> \<ge> 60")
        case True
        then have "tokenPath s k = Inl MinutesNotBelow60"
          using c1 c2 tp by (cases r2) simp_all
        then show ?thesis by blast
      next
        case False
        note m_ok = False
        show ?thesis
        proof (cases r2)
          case Nil
          have "0 \<le> trunc \<bar>d\<bar> + \<bar>m\<bar> / 60
                \<and> tokenPath s k = validated k (hemiSign h * (trunc \<bar>d\<bar> + \<bar>m\<bar> / 60))"
            using c1 c2 Nil tp m_ok nn(1) [of d m] by simp
          then show ?thesis by blast
        next
          case (Cons sc r3)
          show ?thesis
          proof (cases "\<bar>sc\<bar> \<ge> 60")
            case True
            then have "tokenPath s k = Inl SecondsNotBelow60"
              using c1 c2 Cons tp m_ok by simp
            then show ?thesis by blast
          next
            case False
            have "0 \<le> trunc \<bar>d\<bar> + \<bar>m\<bar> / 60 + \<bar>sc\<bar> / 3600
                  \<and> tokenPath s k = validated k (hemiSign h * (trunc \<bar>d\<bar> + \<bar>m\<bar> / 60 + \<bar>sc\<bar> / 3600))"
              using c1 c2 Cons tp m_ok False nn(2) [of d m sc] by simp
            then show ?thesis by blast
          qed
        qed
      qed
    qed
  qed
qed

section \<open>Sign and magnitude in the token paths\<close>



section \<open>Hemisphere letter and axis\<close>

text \<open>
  C9.  \<open>parseToDD\<close> never compares the hemisphere letter with the requested axis.
  Whenever a letter is found and a DD is returned, the DD has the requested axis, and
  its degrees are non-negative for N or E and non-positive for S or W, on either axis.
  The only error that depends on the axis is the axis range error: any other error is
  raised for both axes alike, so there is no mismatch error.  For example \<open>45 30 N\<close>
  parsed as a longitude gives \<open>+45.5\<close> with kind LON, and \<open>45 30 W\<close> parsed as a
  latitude gives \<open>-45.5\<close> with kind LAT.
\<close>

theorem parseToDD_hemisphere_axis_unchecked:
  "(hemiMatch (toUpperCase (trim s)) = Some h \<and> parseToDD (StringIn s) k = Inr dd \<longrightarrow>
      kind dd = k
      \<and> (h = N \<or> h = E \<longrightarrow> 0 \<le> degrees dd)
      \<and> (h = S \<or> h = W \<longrightarrow> degrees dd \<le> 0))
   \<and> (parseToDD inp k = Inl e \<longrightarrow>
        (\<exists>v. e = DegreesOutOfRange k v \<and> DEG_MAX k < \<bar>v\<bar>)
        \<or> (parseToDD inp LAT = Inl e \<and> parseToDD inp LON = Inl e))
   \<and> parseToDD (StringIn ''45 30 N'') LON = Inr \<lparr>kind = LON, degrees = 45.5\<rparr>
   \<and> parseToDD (StringIn ''45 30 W'') LAT = Inr \<lparr>kind = LAT, degrees = - 45.5\<rparr>"
proof -
  have a: "kind dd = k \<and> (h = N \<or> h = E \<longrightarrow> 0 \<le> degrees dd) \<and> (h = S \<or> h = W \<longrightarrow> degrees dd \<le> 0)"
    if hm: "hemiMatch (toUpperCase (trim s)) = Some h" and p: "parseToDD (StringIn s) k = Inr dd"
  proof -
    from tokenPath_hemi [OF hm, of k] p obtain mag where mag: "0 \<le> mag"
      and v: "validated k (hemiSign h * mag) = Inr dd"
      unfolding parseToDD_string by auto
    from v have dd: "dd = \<lparr>kind = k, degrees = hemiSign h * mag\<rparr>"
      by (auto simp: validated_cases split: if_splits)
    show ?thesis using mag unfolding dd by (cases h) (simp_all add: hemiSign_def)
  qed
  have b: "(\<exists>v. e = DegreesOutOfRange k v \<and> DEG_MAX k < \<bar>v\<bar>)
        \<or> (parseToDD inp LAT = Inl e \<and> parseToDD inp LON = Inl e)"
    if "parseToDD inp k = Inl e"
    using that unfolding parseToDD_composed validated_cases
    by (cases "composedDegrees inp") (auto split: if_splits)
  have c: "parseToDD (StringIn ''45 30 N'') LON = Inr \<lparr>kind = LON, degrees = 45.5\<rparr>"
    by (simp add: parse_defs)
  have d: "parseToDD (StringIn ''45 30 W'') LAT = Inr \<lparr>kind = LAT, degrees = - 45.5\<rparr>"
    by (simp add: parse_defs)
  from a b c d show ?thesis by blast
qed

text \<open>
  The theorem at \<open>45 30 N\<close> for the longitude axis, and at \<open>45 65 N\<close>, whose minutes
  error is the same on both axes.
\<close>

theorem parseToDD_hemisphere_axis_unchecked_witness:
  "hemiMatch (toUpperCase (trim ''45 30 N'')) = Some N
   \<and> parseToDD (StringIn ''45 30 N'') LON = Inr \<lparr>kind = LON, degrees = 45.5\<rparr>
   \<and> kind \<lparr>kind = LON, degrees = 45.5\<rparr> = LON
   \<and> 0 \<le> degrees \<lparr>kind = LON, degrees = 45.5\<rparr>
   \<and> parseToDD (StringIn ''45 65 N'') LON = Inl MinutesNotBelow60
   \<and> parseToDD (StringIn ''45 65 N'') LAT = Inl MinutesNotBelow60"
proof -
  have h: "hemiMatch (toUpperCase (trim ''45 30 N'')) = Some N"
    by (simp add: parse_defs)
  have e: "parseToDD (StringIn ''45 65 N'') LON = Inl MinutesNotBelow60"
    by (simp add: parse_defs)
  note t = parseToDD_hemisphere_axis_unchecked [of "''45 30 N''" N LON "\<lparr>kind = LON, degrees = 45.5\<rparr>" "StringIn ''45 65 N''" MinutesNotBelow60]
  from t h have "kind \<lparr>kind = LON, degrees = 45.5\<rparr> = LON \<and> 0 \<le> degrees \<lparr>kind = LON, degrees = 45.5\<rparr>"
    by blast
  moreover from t e have "parseToDD (StringIn ''45 65 N'') LAT = Inl MinutesNotBelow60"
    by auto
  ultimately show ?thesis using t h e by blast
qed

section \<open>The string of \<open>toFixed\<close> read back\<close>

text \<open>
  The converters round with \<^verbatim>\<open>+x.toFixed(d)\<close>.  Below \<open>10\<^sup>2\<^sup>1\<close> and for at most 100
  digits, the string that \<open>toFixed\<close> builds is a plain signed decimal, and its value
  as a number is what \<open>roundFixed\<close> returns.
\<close>

lemma digit_char:
  assumes "k < 10"
  shows "isDigit (char_of (48 + k))" "(of_char (char_of (48 + k)) :: nat) - 48 = k"
proof -
  have "(of_char (char_of (48 + k)) :: nat) = 48 + k"
    using assms by (simp add: of_char_of)
  then show "isDigit (char_of (48 + k))" "(of_char (char_of (48 + k)) :: nat) - 48 = k"
    using assms by (simp_all add: isDigit_def)
qed

lemma digitsValue_snoc: "digitsValue (xs @ [c]) = 10 * digitsValue xs + ((of_char c :: nat) - 48)"
  by (simp add: digitsValue_def)

lemma digitsOf_digits:
  "digitsOf n \<noteq> [] \<and> (\<forall>c\<in>set (digitsOf n). isDigit c) \<and> digitsValue (digitsOf n) = n"
proof (induction n rule: digitsOf.induct)
  case (1 n)
  show ?case
  proof (cases "n < 10")
    case True
    then have "digitsOf n = [char_of (48 + n)]" by (simp add: digitsOf.simps)
    then show ?thesis using digit_char [OF True] by (simp add: digitsValue_def)
  next
    case False
    then have e: "digitsOf n = digitsOf (n div 10) @ [char_of (48 + n mod 10)]"
      by (subst digitsOf.simps) simp
    have m: "n mod 10 < 10" by simp
    from "1" [OF False] digit_char [OF m] show ?thesis
      unfolding e by (simp add: digitsValue_snoc)
  qed
qed

lemma foldl_digits_acc:
  fixes f :: "nat \<Rightarrow> char \<Rightarrow> nat"
  defines "f \<equiv> (\<lambda>a c. 10 * a + ((of_char c :: nat) - 48))"
  shows "foldl f acc b = acc * 10 ^ length b + foldl f 0 b"
proof (induction b arbitrary: acc)
  case Nil
  then show ?case by simp
next
  case (Cons c b)
  have "foldl f acc (c # b) = foldl f (f acc c) b" by simp
  also have "\<dots> = f acc c * 10 ^ length b + foldl f 0 b" by (rule Cons.IH)
  also have "f acc c = 10 * acc + f 0 c" by (simp add: f_def)
  finally have l: "foldl f acc (c # b) = (10 * acc + f 0 c) * 10 ^ length b + foldl f 0 b" .
  have "foldl f 0 (c # b) = foldl f (f 0 c) b" by simp
  also have "\<dots> = f 0 c * 10 ^ length b + foldl f 0 b" by (rule Cons.IH)
  finally have r: "foldl f 0 (c # b) = f 0 c * 10 ^ length b + foldl f 0 b" .
  show ?case unfolding l r by (simp add: algebra_simps)
qed

lemma digitsValue_append: "digitsValue (a @ b) = digitsValue a * 10 ^ length b + digitsValue b"
  unfolding digitsValue_def foldl_append by (rule foldl_digits_acc)

lemma digitsValue_zeros: "digitsValue (replicate k (CHR ''0'') @ m) = digitsValue m"
proof -
  have "digitsValue (replicate k (CHR ''0'')) = 0"
    by (induction k) (simp_all add: digitsValue_def)
  then show ?thesis by (simp add: digitsValue_append)
qed

lemma fixedDigits_shape:
  "\<exists>ip fp. fixedDigits n d = (if d = 0 then ip else ip @ ''.'' @ fp)
     \<and> ip \<noteq> [] \<and> (\<forall>c\<in>set ip. isDigit c) \<and> (\<forall>c\<in>set fp. isDigit c)
     \<and> length fp = d \<and> digitsValue ip * 10 ^ d + digitsValue fp = n"
proof (cases "d = 0")
  case True
  have "fixedDigits n d = digitsOf n" using True by (simp add: fixedDigits_def)
  then show ?thesis using True digitsOf_digits [of n]
    by (intro exI [of _ "digitsOf n"] exI [of _ "[]"]) (simp add: digitsValue_def)
next
  case False
  define m0 where "m0 = digitsOf n"
  define m1 where "m1 = (if length m0 \<le> d then replicate (d + 1 - length m0) (CHR ''0'') @ m0 else m0)"
  define ip where "ip = take (length m1 - d) m1"
  define fp where "fp = drop (length m1 - d) m1"
  have fd: "fixedDigits n d = ip @ ''.'' @ fp"
    using False by (simp add: fixedDigits_def Let_def m0_def m1_def ip_def fp_def)
  have m0: "\<forall>c\<in>set m0. isDigit c" "digitsValue m0 = n"
    using digitsOf_digits [of n] by (simp_all add: m0_def)
  have z: "isDigit (CHR ''0'')" by (simp add: isDigit_def)
  have m1d: "\<forall>c\<in>set m1. isDigit c" using m0(1) z by (auto simp: m1_def)
  have m1v: "digitsValue m1 = n" using m0(2) by (simp add: m1_def digitsValue_zeros)
  have m1l: "d < length m1" by (auto simp: m1_def)
  have split: "m1 = ip @ fp" by (simp add: ip_def fp_def)
  have "ip \<noteq> []" using m1l by (auto simp: ip_def)
  moreover have "length fp = d" using m1l by (simp add: fp_def)
  moreover have "\<forall>c\<in>set ip. isDigit c" "\<forall>c\<in>set fp. isDigit c"
    using m1d unfolding split by auto
  moreover have "digitsValue ip * 10 ^ d + digitsValue fp = n"
    using m1v \<open>length fp = d\<close> unfolding split by (simp add: digitsValue_append)
  ultimately show ?thesis using fd False by auto
qed


lemma digit_not_sign: "isDigit c \<Longrightarrow> c \<noteq> CHR ''+'' \<and> c \<noteq> CHR ''-'' \<and> c \<noteq> CHR ''.''"
  by (auto simp: isDigit_def)

lemma matchNumberAt_decimal:
  assumes ip: "ip \<noteq> []" "\<forall>c\<in>set ip. isDigit c"
    and fp: "fp \<noteq> []" "\<forall>c\<in>set fp. isDigit c"
    and sg: "sg = [] \<or> sg = ''+'' \<or> sg = ''-''"
  shows "matchNumberAt (sg @ ip) = Some (sg @ ip, [])"
    "matchNumberAt (sg @ ip @ CHR ''.'' # fp) = Some (sg @ ip @ CHR ''.'' # fp, [])"
proof -
  obtain c cs where c: "ip = c # cs" using ip(1) by (cases ip) auto
  have cd: "isDigit c" using ip(2) c by simp
  note ns = digit_not_sign [OF cd]
  have nd: "\<not> isDigit (CHR ''.'')" by (simp add: isDigit_def)
  have sgp: "(case sg @ ip @ r of [] \<Rightarrow> [] | c # _ \<Rightarrow> if c = CHR ''+'' \<or> c = CHR ''-'' then [c] else []) = sg"
    for r
    using sg ns by (auto simp: c)
  have t1: "takeWhile isDigit ip = ip" "dropWhile isDigit ip = []" using ip(2) by simp_all
  have t2: "takeWhile isDigit (ip @ CHR ''.'' # fp) = ip"
    "dropWhile isDigit (ip @ CHR ''.'' # fp) = CHR ''.'' # fp"
    using ip(2) nd by (simp_all add: takeWhile_append2 dropWhile_append2)
  have t3: "takeWhile isDigit fp = fp" "dropWhile isDigit fp = []" using fp(2) by simp_all
  show "matchNumberAt (sg @ ip) = Some (sg @ ip, [])"
    unfolding matchNumberAt_def Let_def using sgp [of "[]"] ip(1)
    by (simp add: t1)
  show "matchNumberAt (sg @ ip @ CHR ''.'' # fp) = Some (sg @ ip @ CHR ''.'' # fp, [])"
    unfolding matchNumberAt_def Let_def sgp [of "CHR ''.'' # fp"] using ip(1) fp(1)
    by (simp add: t2 t3)
qed

lemma decimalValue_decimal:
  assumes ip: "ip \<noteq> []" "\<forall>c\<in>set ip. isDigit c"
    and fp: "\<forall>c\<in>set fp. isDigit c"
  shows "decimalValue ip = real (digitsValue ip)"
    "decimalValue (CHR ''-'' # ip) = - real (digitsValue ip)"
    "decimalValue (ip @ CHR ''.'' # fp) = real (digitsValue ip) + real (digitsValue fp) / 10 ^ length fp"
    "decimalValue (CHR ''-'' # ip @ CHR ''.'' # fp)
       = - (real (digitsValue ip) + real (digitsValue fp) / 10 ^ length fp)"
proof -
  obtain c cs where c: "ip = c # cs" using ip(1) by (cases ip) auto
  have cd: "isDigit c" using ip(2) c by simp
  note ns = digit_not_sign [OF cd]
  have h: "hd (ip @ r) = c" "ip @ r \<noteq> []" for r by (simp_all add: c)
  have h0: "hd ip = c" by (simp add: c)
  have nd: "\<not> isDigit (CHR ''.'')" by (simp add: isDigit_def)
  have t1: "takeWhile isDigit ip = ip" "dropWhile isDigit ip = []" using ip(2) by simp_all
  have t2: "takeWhile isDigit (ip @ CHR ''.'' # fp) = ip"
    "dropWhile isDigit (ip @ CHR ''.'' # fp) = CHR ''.'' # fp"
    using ip(2) nd by (simp_all add: takeWhile_append2 dropWhile_append2)
  have e: "digitsValue [] = 0" by (simp add: digitsValue_def)
  show "decimalValue ip = real (digitsValue ip)"
    unfolding decimalValue_def Let_def using ns ip(1) by (simp add: h0 t1 e)
  show "decimalValue (CHR ''-'' # ip) = - real (digitsValue ip)"
    unfolding decimalValue_def Let_def by (simp add: t1 e)
  show "decimalValue (ip @ CHR ''.'' # fp) = real (digitsValue ip) + real (digitsValue fp) / 10 ^ length fp"
    unfolding decimalValue_def Let_def using ns h [of "CHR ''.'' # fp"] by (simp add: t2)
  show "decimalValue (CHR ''-'' # ip @ CHR ''.'' # fp)
       = - (real (digitsValue ip) + real (digitsValue fp) / 10 ^ length fp)"
    unfolding decimalValue_def Let_def by (simp add: t2)
qed


lemma toFixed_read_back:
  assumes d: "d \<le> 100" and x: "\<bar>x\<bar> < 10 ^ 21"
  shows "\<exists>s. toFixed dtoa x d = Inr s \<and> isPlainDecimal s \<and> roundFixed x d = Inr (decimalValue s)"
proof -
  define n where "n = nat (toFixedScaled \<bar>x\<bar> d)"
  have "0 \<le> toFixedScaled \<bar>x\<bar> d" by (simp add: toFixedScaled_def)
  then have n: "of_int (toFixedScaled \<bar>x\<bar> d) = real n" by (simp add: n_def)
  from fixedDigits_shape [of n d] obtain ip fp where
    fd: "fixedDigits n d = (if d = 0 then ip else ip @ ''.'' @ fp)"
    and ip: "ip \<noteq> []" "\<forall>c\<in>set ip. isDigit c"
    and fp: "\<forall>c\<in>set fp. isDigit c" "length fp = d"
    and v: "digitsValue ip * 10 ^ d + digitsValue fp = n"
    by blast
  have val: "real (digitsValue ip) + real (digitsValue fp) / 10 ^ d = real n / 10 ^ d"
    unfolding v [symmetric] by (simp add: field_simps)
  have val0: "real (digitsValue ip) = real n / 10 ^ d" if "d = 0"
  proof -
    from that fp(2) have "fp = []" by simp
    then have "digitsValue fp = 0" by (simp add: digitsValue_def)
    then show ?thesis using v that by simp
  qed
  have fpne: "d \<noteq> 0 \<Longrightarrow> fp \<noteq> []" using fp(2) by auto
  have fd0: "d = 0 \<Longrightarrow> fixedDigits n d = ip" using fd by simp
  have fd1: "d \<noteq> 0 \<Longrightarrow> fixedDigits n d = ip @ CHR ''.'' # fp" using fd by simp
  define s where "s = (if x < 0 then ''-'' else []) @ fixedDigits n d"
  have tf: "toFixed dtoa x d = Inr s"
    using d x by (simp add: toFixed_def s_def n_def)
  have rf: "roundFixed x d = Inr (if x < 0 then - (real n / 10 ^ d) else real n / 10 ^ d)"
  proof (cases "x < 0")
    case True
    then have "\<bar>x\<bar> = - x" by simp
    then show ?thesis using d x True n by (simp add: roundFixed_def)
  next
    case False
    then have "\<bar>x\<bar> = x" by simp
    then show ?thesis using d x False n by (simp add: roundFixed_def)
  qed
  have "isPlainDecimal s \<and> decimalValue s = (if x < 0 then - (real n / 10 ^ d) else real n / 10 ^ d)"
  proof (cases "d = 0")
    case True
    have z: "''0'' \<noteq> []" "\<forall>c\<in>set ''0''. isDigit c" by (simp_all add: isDigit_def)
    note m = matchNumberAt_decimal(1) [OF ip z]
    note dv = decimalValue_decimal(1,2) [OF ip, of "[]"]
    show ?thesis
    proof (cases "x < 0")
      case True
      have "s = ''-'' @ ip" using True fd0 [OF \<open>d = 0\<close>] by (simp add: s_def)
      then show ?thesis using m [of "''-''"] dv True val0 [OF \<open>d = 0\<close>]
        by (simp add: isPlainDecimal_def)
    next
      case False
      have "s = [] @ ip" using False fd0 [OF \<open>d = 0\<close>] by (simp add: s_def)
      then show ?thesis using m [of "[]"] dv False val0 [OF \<open>d = 0\<close>]
        by (simp add: isPlainDecimal_def)
    qed
  next
    case False
    note m = matchNumberAt_decimal(2) [OF ip fpne [OF False] fp(1)]
    note dv = decimalValue_decimal(3,4) [OF ip fp(1)]
    show ?thesis
    proof (cases "x < 0")
      case True
      have "s = ''-'' @ ip @ CHR ''.'' # fp" using True fd1 [OF False] by (simp add: s_def)
      then show ?thesis using m [of "''-''"] dv True val fp(2)
        by (simp add: isPlainDecimal_def)
    next
      case neg: False
      have "s = [] @ ip @ CHR ''.'' # fp" using neg fd1 [OF False] by (simp add: s_def)
      then show ?thesis using m [of "[]"] dv neg val fp(2)
        by (simp add: isPlainDecimal_def)
    qed
  qed
  then show ?thesis using tf rf by auto
qed


section \<open>Truncation and rounding\<close>

lemma trunc_decomp:
  "\<bar>trunc d\<bar> = of_int \<lfloor>\<bar>d\<bar>\<rfloor>" "\<bar>d - trunc d\<bar> = \<bar>d\<bar> - of_int \<lfloor>\<bar>d\<bar>\<rfloor>"
proof -
  show "\<bar>trunc d\<bar> = of_int \<lfloor>\<bar>d\<bar>\<rfloor>"
  proof (cases "d \<ge> 0")
    case True
    then show ?thesis by (simp add: trunc_def)
  next
    case False
    then have "\<lceil>d\<rceil> \<le> 0" by (simp add: ceiling_le_iff)
    then have "\<bar>(of_int \<lceil>d\<rceil> :: real)\<bar> = - of_int \<lceil>d\<rceil>" by simp
    also have "\<dots> = of_int \<lfloor>- d\<rfloor>" by (simp add: ceiling_def)
    finally show ?thesis using False by (simp add: trunc_def)
  qed
  show "\<bar>d - trunc d\<bar> = \<bar>d\<bar> - of_int \<lfloor>\<bar>d\<bar>\<rfloor>"
  proof (cases "d \<ge> 0")
    case True
    have "of_int \<lfloor>d\<rfloor> \<le> d" by simp
    then show ?thesis using True by (simp add: trunc_def)
  next
    case False
    have "d \<le> of_int \<lceil>d\<rceil>" by simp
    moreover have "(of_int \<lceil>d\<rceil> :: real) = - of_int \<lfloor>- d\<rfloor>" by (simp add: ceiling_def)
    ultimately show ?thesis using False by (simp add: trunc_def)
  qed
qed

lemma round2_bounds:
  fixes x :: real
  assumes "0 \<le> x" and "x < 60"
  defines "q \<equiv> of_int \<lfloor>x * 100 + 1 / 2\<rfloor> / 100"
  shows "roundFixed x 2 = Inr q" "\<bar>q - x\<bar> \<le> 1 / 200" "0 \<le> q" "q \<le> 60"
proof -
  have "\<bar>x\<bar> < 10 ^ 21" using assms(1,2) by simp
  then show "roundFixed x 2 = Inr q"
    using assms(1) by (simp add: roundFixed_def toFixedScaled_def q_def)
  have lo: "of_int \<lfloor>x * 100 + 1 / 2\<rfloor> \<le> x * 100 + 1 / 2" by (rule of_int_floor_le)
  have hi: "x * 100 + 1 / 2 < of_int \<lfloor>x * 100 + 1 / 2\<rfloor> + 1" by linarith
  define z :: real where "z = of_int \<lfloor>x * 100 + 1 / 2\<rfloor>"
  have qz: "q = z / 100" by (simp add: q_def z_def)
  have "z \<le> x * 100 + 1 / 2" "x * 100 + 1 / 2 < z + 1" using lo hi by (simp_all add: z_def)
  then show "\<bar>q - x\<bar> \<le> 1 / 200" unfolding qz by linarith
  have "0 \<le> \<lfloor>x * 100 + 1 / 2\<rfloor>" using assms(1) by simp
  then show "0 \<le> q" unfolding q_def by simp
  show "q \<le> 60"
  proof -
    have "x * 100 + 1 / 2 < 6001" using assms(2) by simp
    then have "\<lfloor>x * 100 + 1 / 2\<rfloor> < 6001" by (simp add: floor_less_iff)
    then have "\<lfloor>x * 100 + 1 / 2\<rfloor> \<le> 6000" by simp
    then have "(of_int \<lfloor>x * 100 + 1 / 2\<rfloor> :: real) \<le> 6000" by linarith
    then show ?thesis unfolding q_def by simp
  qed
qed


text \<open>
  The DMS decomposition at the default precision: the fields lie in their ranges, and
  their sum differs from the magnitude of the input by the rounding of the seconds
  only, carries included.
\<close>

lemma ddToDMS_default:
  fixes dd :: DD
  defines "a \<equiv> \<bar>degrees dd\<bar>"
  shows "\<exists>dms. ddToDMS dd None = Inr dms
           \<and> kind dms = kind dd
           \<and> hemi dms = Some (dirFromSign (kind dd) (degrees dd))
           \<and> 0 \<le> degrees dms
           \<and> 0 \<le> minutes dms \<and> minutes dms < 60
           \<and> 0 \<le> seconds dms \<and> seconds dms < 60
           \<and> \<bar>degrees dms + minutes dms / 60 + seconds dms / 3600 - a\<bar> \<le> 1 / 720000
           \<and> degrees dms + minutes dms / 60 + seconds dms / 3600 \<le> of_int \<lfloor>a\<rfloor> + 1
           \<and> (a = of_int \<lfloor>a\<rfloor> \<longrightarrow> degrees dms + minutes dms / 60 + seconds dms / 3600 = a)"
proof -
  define n where "n = \<lfloor>a\<rfloor>"
  define f where "f = a - of_int n"
  define m0 where "m0 = \<lfloor>f * 60\<rfloor>"
  define x where "x = f * 3600 - of_int m0 * 60"
  define q where "q = of_int \<lfloor>x * 100 + 1 / 2\<rfloor> / (100 :: real)"
  have a0: "0 \<le> a" by (simp add: a_def)
  have n0: "0 \<le> n" using a0 by (simp add: n_def)
  have f0: "0 \<le> f" and f1: "f < 1" unfolding f_def n_def by linarith+
  have m0_lo: "0 \<le> m0" using f0 by (simp add: m0_def)
  have "f * 60 < 60" using f1 by simp
  then have "m0 < 60" unfolding m0_def by (simp add: floor_less_iff)
  then have m0_hi: "m0 \<le> 59" by simp
  have x0: "0 \<le> x" and x1: "x < 60"
  proof -
    have "of_int m0 \<le> f * 60" "f * 60 < of_int m0 + 1" unfolding m0_def by linarith+
    then show "0 \<le> x" "x < 60" unfolding x_def by linarith+
  qed
  note r = round2_bounds [OF x0 x1, folded q_def]
  have q60: "q \<le> 60" by (rule r(4))
  have tr1: "\<bar>trunc (degrees dd)\<bar> = of_int n"
    unfolding a_def n_def by (rule trunc_decomp(1))
  have tr2: "\<bar>degrees dd - trunc (degrees dd)\<bar> = f"
    unfolding a_def n_def f_def by (rule trunc_decomp(2))
  note tr = tr1 tr2
  define secs where "secs = (if q \<ge> 60 then 0 else q)"
  define m1 where "m1 = (if q \<ge> 60 then m0 + 1 else m0)"
  define mins where "mins = (if m1 \<ge> 60 then 0 else m1)"
  define dg where "dg = (if m1 \<ge> 60 then n + 1 else n)"
  define dms where "dms = \<lparr>kind = kind dd, degrees = of_int dg, minutes = of_int mins,
     hemi = Some (dirFromSign (kind dd) (degrees dd)), seconds = secs\<rparr>"
  have res: "ddToDMS dd None = Inr dms"
    unfolding ddToDMS_def opt_decimals_def opt_clamp_def Let_def
    by (simp add: tr m0_def [symmetric] x_def [symmetric] r(1) dms_def secs_def m1_def mins_def dg_def)
  have tot: "of_int dg + of_int mins / 60 + secs / 3600 = of_int n + of_int m0 / 60 + q / (3600 :: real)"
    using q60 m0_hi unfolding dg_def mins_def m1_def secs_def by auto
  have aeq: "a = of_int n + of_int m0 / 60 + x / 3600"
    unfolding x_def f_def by (simp add: field_simps)
  have b1: "\<bar>of_int dg + of_int mins / 60 + secs / 3600 - a\<bar> \<le> 1 / 720000"
    using r(2) unfolding tot aeq by linarith
  have b2: "of_int dg + of_int mins / 60 + secs / 3600 \<le> of_int n + (1 :: real)"
  proof -
    have "(of_int m0 :: real) \<le> 59" using m0_hi by linarith
    then show ?thesis using q60 unfolding tot by simp
  qed
  have b3: "of_int dg + of_int mins / 60 + secs / 3600 = a" if "a = of_int n"
  proof -
    from that have "f = 0" by (simp add: f_def)
    then have "m0 = 0" "x = 0" by (simp_all add: m0_def x_def)
    then have "q = 0" by (simp add: q_def)
    then show ?thesis using \<open>m0 = 0\<close> that unfolding tot by simp
  qed
  have c1: "0 \<le> dg" using n0 by (simp add: dg_def)
  have c2: "0 \<le> mins" "mins < 60" using m0_lo m0_hi by (auto simp: mins_def m1_def)
  have c3: "0 \<le> secs" "secs < 60" using r(3) by (auto simp: secs_def)
  show ?thesis
    using res b1 b2 b3 c1 c2 c3 unfolding n_def [symmetric]
    by (intro exI [of _ dms]) (simp add: dms_def)
qed


lemma applyHemiToSign_dirFromSign:
  "0 \<le> t \<Longrightarrow> applyHemiToSign t (Some (dirFromSign k d)) = (if d \<ge> 0 then t else - t)"
  by (cases k) (simp_all add: applyHemiToSign_def dirFromSign_def)

lemma below_DEG_MAX:
  assumes a: "0 \<le> a" "a \<le> DEG_MAX k"
    and t1: "t \<le> of_int \<lfloor>a\<rfloor> + 1"
    and t2: "a = of_int \<lfloor>a\<rfloor> \<longrightarrow> t = a"
  shows "t \<le> DEG_MAX k"
proof (cases "a = of_int \<lfloor>a\<rfloor>")
  case True
  then show ?thesis using a t2 by simp
next
  case False
  define mi :: int where "mi = (if k = LAT then 90 else 180)"
  have mx: "DEG_MAX k = of_int mi" by (cases k) (simp_all add: mi_def)
  have "\<lfloor>a\<rfloor> \<le> mi" using a(2) unfolding mx by (simp add: floor_le_iff)
  moreover have "\<lfloor>a\<rfloor> \<noteq> mi"
  proof
    assume "\<lfloor>a\<rfloor> = mi"
    then have "of_int mi \<le> a" using of_int_floor_le [of a] by simp
    then have "a = of_int mi" using a(2) mx by simp
    then show False using False by simp
  qed
  ultimately have "\<lfloor>a\<rfloor> + 1 \<le> mi" by simp
  then have "(of_int \<lfloor>a\<rfloor> :: real) + 1 \<le> of_int mi" by linarith
  then show ?thesis using t1 mx by simp
qed

section \<open>Round trip through DMS\<close>

text \<open>
  C2.  For every DD whose degrees lie in the range of its axis, \<open>ddToDMS\<close> at the
  default precision of two decimals returns a DMS that \<open>dmsToDD\<close> accepts, and the DD
  that comes back has the same axis and degrees within \<open>1/720000\<close> (half a hundredth of
  a second), hence within \<open>10\<^sup>-\<^sup>4\<close>, of the original, on both axes and for either sign.
\<close>

theorem ddToDMS_roundtrip:
  assumes "\<bar>degrees dd\<bar> \<le> DEG_MAX (kind dd)"
  shows "\<exists>dms r. ddToDMS dd None = Inr dms \<and> dmsToDD dms = Inr r
           \<and> kind r = kind dd
           \<and> \<bar>degrees r - degrees dd\<bar> \<le> 1 / 720000
           \<and> \<bar>degrees r - degrees dd\<bar> \<le> 1 / 10 ^ 4"
proof -
  from ddToDMS_default [of dd] obtain dms where
    res: "ddToDMS dd None = Inr dms"
    and k: "kind dms = kind dd"
    and h: "hemi dms = Some (dirFromSign (kind dd) (degrees dd))"
    and dg: "0 \<le> degrees dms"
    and mn: "0 \<le> minutes dms" "minutes dms < 60"
    and sc: "0 \<le> seconds dms" "seconds dms < 60"
    and err: "\<bar>degrees dms + minutes dms / 60 + seconds dms / 3600 - \<bar>degrees dd\<bar>\<bar> \<le> 1 / 720000"
    and up: "degrees dms + minutes dms / 60 + seconds dms / 3600 \<le> of_int \<lfloor>\<bar>degrees dd\<bar>\<rfloor> + 1"
    and ex: "\<bar>degrees dd\<bar> = of_int \<lfloor>\<bar>degrees dd\<bar>\<rfloor> \<longrightarrow>
               degrees dms + minutes dms / 60 + seconds dms / 3600 = \<bar>degrees dd\<bar>"
    by blast
  define t where "t = degrees dms + minutes dms / 60 + seconds dms / 3600"
  have t0: "0 \<le> t" using dg mn(1) sc(1) by (simp add: t_def)
  have tm: "t \<le> DEG_MAX (kind dd)"
    using below_DEG_MAX [of "\<bar>degrees dd\<bar>" "kind dd" t] assms up ex by (simp add: t_def)
  define r where "r = \<lparr>kind = kind dd, degrees = (if degrees dd \<ge> 0 then t else - t)\<rparr>"
  have bk: "dmsToDD dms = Inr r"
    using mn sc dg t0 tm
    by (simp add: dmsToDD_def Let_def h k validateRange_def r_def t_def [symmetric]
          applyHemiToSign_dirFromSign)
  have "\<bar>degrees r - degrees dd\<bar> = \<bar>t - \<bar>degrees dd\<bar>\<bar>"
    unfolding r_def by (cases "degrees dd \<ge> 0") (simp_all add: abs_if)
  then have e1: "\<bar>degrees r - degrees dd\<bar> \<le> 1 / 720000" using err by (simp add: t_def)
  then have e2: "\<bar>degrees r - degrees dd\<bar> \<le> 1 / 10 ^ 4" by simp
  have "kind r = kind dd" by (simp add: r_def)
  with res bk e1 e2 show ?thesis by blast
qed

text \<open>
  The theorem at the latitude \<open>-0.99999\<close>, the input at which the round trip through DM
  fails: here the seconds are \<open>59.96\<close> and nothing is carried.
\<close>

theorem ddToDMS_roundtrip_witness:
  "(let dd = \<lparr>kind = LAT, degrees = - 0.99999\<rparr> in
      \<bar>degrees dd\<bar> \<le> DEG_MAX (kind dd)
      \<and> (\<exists>dms r. ddToDMS dd None = Inr dms \<and> dmsToDD dms = Inr r
             \<and> kind r = kind dd
             \<and> \<bar>degrees r - degrees dd\<bar> \<le> 1 / 720000
             \<and> \<bar>degrees r - degrees dd\<bar> \<le> 1 / 10 ^ 4))"
proof -
  have h: "\<bar>degrees \<lparr>kind = LAT, degrees = - 0.99999\<rparr>\<bar> \<le> DEG_MAX (kind \<lparr>kind = LAT, degrees = - 0.99999\<rparr>)"
    by simp
  from ddToDMS_roundtrip [OF h] h show ?thesis unfolding Let_def by blast
qed



section \<open>Minutes rollover of \<open>ddToDM\<close>\<close>

text \<open>
  C5.  At the default precision of two decimals, the latitude \<open>45.999\<close> has
  \<open>59.94\<close> rounded minutes, which is below 60, so \<open>ddToDM\<close> returns 45 degrees and
  \<open>59.94\<close> minutes without rollover; the latitude \<open>45.99999\<close> has fractional minutes
  that round to exactly 60, and \<open>ddToDM\<close> returns 46 degrees and 0 minutes.
\<close>

theorem ddToDM_rollover_cases:
  "roundFixed (\<bar>45.999 - trunc 45.999\<bar> * 60) 2 = Inr 59.94
   \<and> ddToDM \<lparr>kind = LAT, degrees = 45.999\<rparr> None
       = Inr \<lparr>kind = LAT, degrees = 45, minutes = 59.94, hemi = Some N\<rparr>
   \<and> roundFixed (\<bar>45.99999 - trunc 45.99999\<bar> * 60) 2 = Inr 60
   \<and> ddToDM \<lparr>kind = LAT, degrees = 45.99999\<rparr> None
       = Inr \<lparr>kind = LAT, degrees = 46, minutes = 0, hemi = Some N\<rparr>"
  by (simp add: conv_defs)

section \<open>Clamping and range errors\<close>

text \<open>
  C7.  With the clamp option, \<open>ddToDM\<close> turns the latitude 95 into 90 degrees,
  0 minutes, hemisphere N.  Without clamping, \<open>parseToDD\<close> on the string \<open>95\<close>
  for the latitude axis raises the axis range error.
\<close>

theorem clamp_and_range_error:
  "ddToDM \<lparr>kind = LAT, degrees = 95\<rparr> (Some \<lparr>decimals = None, clamp = Some True\<rparr>)
     = Inr \<lparr>kind = LAT, degrees = 90, minutes = 0, hemi = Some N\<rparr>
   \<and> parseToDD (StringIn ''95'') LAT = Inl (DegreesOutOfRange LAT 95)"
  by (simp add: conv_defs parse_defs)

section \<open>Formatting\<close>

text \<open>
  C8.  With the default precisions (5 decimals for DD, 2 for the minutes of DM, 2 for
  the seconds of DMS), \<open>formatDD\<close> renders the latitude \<open>48.8544\<close> as \<^verbatim>\<open>48.85440\<close>,
  the degree sign, a space and \<^verbatim>\<open>N\<close>; \<open>formatDM\<close> renders 48 degrees \<open>51.264\<close>
  minutes N as \<^verbatim>\<open>48\<close>, the degree sign and \<^verbatim>\<open> 51.26' N\<close>; and \<open>formatDMS\<close> renders
  48 degrees 51 minutes \<open>15.84\<close> seconds N as \<^verbatim>\<open>48\<close>, the degree sign and
  \<^verbatim>\<open> 51' 15.84" N\<close>, whatever the rendering of non-integral numbers is.
\<close>

theorem format_literal_cases:
  "formatDD dtoa \<lparr>kind = LAT, degrees = 48.8544\<rparr> None
     = Inr (''48.85440'' @ [degreeSign] @ '' N'')
   \<and> formatDM dtoa \<lparr>kind = LAT, degrees = 48, minutes = 51.264, hemi = Some N\<rparr> None
     = Inr (''48'' @ [degreeSign] @ '' 51.26'' @ [apostrophe] @ '' N'')
   \<and> formatDMS dtoa \<lparr>kind = LAT, degrees = 48, minutes = 51, hemi = Some N, seconds = 15.84\<rparr> None
     = Inr (''48'' @ [degreeSign] @ '' 51'' @ [apostrophe] @ '' 15.84'' @ [doubleQuote] @ '' N'')"
  by (simp add: fmt_defs digitsOf.simps char_of_def bit_Suc_0_iff)

section \<open>Facts about double arithmetic\<close>

lemma toDouble_not_NaN: "toDouble rnd x \<noteq> NaN"
  by (simp add: toDouble_def split: option.splits)

lemma toDouble_nonNegative: "signPreserving rnd \<Longrightarrow> 0 \<le> x \<Longrightarrow> nonNegative (toDouble rnd x)"
  by (auto simp: toDouble_def nonNegative_def signPreserving_def split: option.splits)

lemma nonNegative_not_NaN: "nonNegative x \<Longrightarrow> x \<noteq> NaN"
  by (auto simp: nonNegative_def)

lemma num_abs_nonNegative: "x \<noteq> NaN \<Longrightarrow> nonNegative (num_abs x)"
  by (cases x) (simp_all add: nonNegative_def)

lemma num_trunc_nonNegative: "nonNegative x \<Longrightarrow> nonNegative (num_trunc x)"
  by (cases x) (simp_all add: nonNegative_def trunc_def)

lemma num_div_nonNegative:
  assumes sp: "signPreserving rnd" and nn: "nonNegative x" and c: "0 < c"
  shows "nonNegative (num_div rnd x c)"
proof (cases x)
  case (Finite a)
  then have "0 \<le> a / c" using nn c by (simp add: nonNegative_def)
  then show ?thesis using toDouble_nonNegative [OF sp] Finite by simp
qed (use nn in \<open>simp_all add: nonNegative_def\<close>)

lemma num_add_nonNegative:
  assumes sp: "signPreserving rnd" and x: "nonNegative x" and y: "nonNegative y"
  shows "nonNegative (num_add rnd x y)"
proof (cases x)
  case fx: (Finite a)
  show ?thesis
  proof (cases y)
    case (Finite b)
    then have "0 \<le> a + b" using x y fx by (simp add: nonNegative_def)
    then show ?thesis using toDouble_nonNegative [OF sp] fx Finite by simp
  qed (use y fx in \<open>simp_all add: nonNegative_def\<close>)
next
  case PosInfinity
  then show ?thesis using y by (cases y) (simp_all add: nonNegative_def)
qed (use x in \<open>simp_all add: nonNegative_def\<close>)

lemma num_neg_not_NaN: "x \<noteq> NaN \<Longrightarrow> num_neg x \<noteq> NaN"
  by (cases x) simp_all

lemma num_abs_not_NaN: "x \<noteq> NaN \<Longrightarrow> num_abs x \<noteq> NaN"
  by (cases x) simp_all

lemma num_mul_unit_not_NaN:
  "s = Finite 1 \<or> s = Finite (- 1) \<Longrightarrow> x \<noteq> NaN \<Longrightarrow> num_mul rnd s x \<noteq> NaN"
  by (cases x) (auto simp: toDouble_not_NaN)

lemma signOr1'_unit: "signOr1' x = Finite 1 \<or> signOr1' x = Finite (- 1)"
  by (cases x) (auto simp: sgn_if)

lemma hemiSign_unit: "Finite (hemiSign h) = Finite 1 \<or> Finite (hemiSign h) = Finite (- 1)"
  by (simp add: hemiSign_def)

lemma applyHemiToSign'_not_NaN: "x \<noteq> NaN \<Longrightarrow> applyHemiToSign' x h \<noteq> NaN"
  by (cases h) (simp_all add: applyHemiToSign'_def num_neg_not_NaN num_abs_not_NaN)

lemma num_ge_60_cases:
  "nonNegative x \<Longrightarrow> \<not> num_ge x (Finite 60) \<Longrightarrow> in0to60 x"
  by (cases x) (auto simp: nonNegative_def in0to60_def)

text \<open>
  The test of \<^verbatim>\<open>validateRange\<close> on a number that is not \<^verbatim>\<open>NaN\<close> is the negation of
  \<open>inAxisRange\<close>; a \<^verbatim>\<open>NaN\<close> passes the test although it lies in no range.
\<close>

lemma validated'_cases:
  "v \<noteq> NaN \<Longrightarrow>
     validated' k v = (if inAxisRange k v then Inr \<lparr>kind' = k, degrees' = v\<rparr>
                       else Inl (DegreesOutOfRange' k v))"
  by (cases v; cases k) (auto simp: validated'_def validateRange'_def inAxisRange_def num_gt_def Let_def)


section \<open>The numeric tokens are plain decimals\<close>

lemma matchNumberAt_shape:
  assumes "matchNumberAt s = Some (m, r)"
  shows "\<exists>sg ip fp. (sg = [] \<or> sg = ''+'' \<or> sg = ''-'') \<and> ip \<noteq> []
           \<and> (\<forall>c\<in>set ip. isDigit c) \<and> (\<forall>c\<in>set fp. isDigit c)
           \<and> (m = sg @ ip \<or> (fp \<noteq> [] \<and> m = sg @ ip @ CHR ''.'' # fp))"
proof -
  define sg where "sg = (case s of [] \<Rightarrow> [] | c # _ \<Rightarrow> if c = CHR ''+'' \<or> c = CHR ''-'' then [c] else [])"
  define s1 where "s1 = drop (length sg) s"
  define ds where "ds = takeWhile isDigit s1"
  define s2 where "s2 = dropWhile isDigit s1"
  have sgc: "sg = [] \<or> sg = ''+'' \<or> sg = ''-''" unfolding sg_def by (cases s) auto
  have dsc: "\<forall>c\<in>set ds. isDigit c" unfolding ds_def by (auto dest: set_takeWhileD)
  have m: "(if ds = [] then None
            else (case s2 of
              [] \<Rightarrow> Some (sg @ ds, [])
            | c # s3 \<Rightarrow>
                if c = CHR ''.'' \<and> takeWhile isDigit s3 \<noteq> []
                then Some (sg @ ds @ [c] @ takeWhile isDigit s3, dropWhile isDigit s3)
                else Some (sg @ ds, s2))) = Some (m, r)"
    using assms unfolding matchNumberAt_def Let_def sg_def [symmetric] s1_def [symmetric]
      s2_def [symmetric] ds_def [symmetric]
    by simp
  then have ne: "ds \<noteq> []" by (auto split: if_splits)
  have "m = sg @ ds \<or> (\<exists>s3. takeWhile isDigit s3 \<noteq> [] \<and> m = sg @ ds @ CHR ''.'' # takeWhile isDigit s3)"
    using m ne by (cases s2) (auto split: if_splits)
  then show ?thesis
  proof
    assume "m = sg @ ds"
    then show ?thesis using sgc ne dsc by (intro exI [of _ sg] exI [of _ ds] exI [of _ "[]"]) simp
  next
    assume "\<exists>s3. takeWhile isDigit s3 \<noteq> [] \<and> m = sg @ ds @ CHR ''.'' # takeWhile isDigit s3"
    then obtain s3 where f: "takeWhile isDigit s3 \<noteq> []"
      and mm: "m = sg @ ds @ CHR ''.'' # takeWhile isDigit s3" by blast
    have "\<forall>c\<in>set (takeWhile isDigit s3). isDigit c" by (auto dest: set_takeWhileD)
    then show ?thesis using sgc ne dsc f mm
      by (intro exI [of _ sg] exI [of _ ds] exI [of _ "takeWhile isDigit s3"]) simp
  qed
qed

lemma matchNumberAt_plain:
  assumes "matchNumberAt s = Some (m, r)"
  shows "isPlainDecimal m"
proof -
  from matchNumberAt_shape [OF assms] obtain sg ip fp where
    sg: "sg = [] \<or> sg = ''+'' \<or> sg = ''-''" and ip: "ip \<noteq> []" "\<forall>c\<in>set ip. isDigit c"
    and fp: "\<forall>c\<in>set fp. isDigit c"
    and m: "m = sg @ ip \<or> (fp \<noteq> [] \<and> m = sg @ ip @ CHR ''.'' # fp)"
    by blast
  have z: "''0'' \<noteq> []" "\<forall>c\<in>set ''0''. isDigit c" by (simp_all add: isDigit_def)
  from m show ?thesis
  proof
    assume "m = sg @ ip"
    then show ?thesis using matchNumberAt_decimal(1) [OF ip z sg] by (simp add: isPlainDecimal_def)
  next
    assume "fp \<noteq> [] \<and> m = sg @ ip @ CHR ''.'' # fp"
    then show ?thesis using matchNumberAt_decimal(2) [OF ip _ fp sg]
      by (simp add: isPlainDecimal_def)
  qed
qed

lemma matchAllNumbers_plain: "t \<in> set (matchAllNumbers s) \<Longrightarrow> isPlainDecimal t"
proof (induction s rule: matchAllNumbers.induct)
  case 1
  then show ?case by simp
next
  case (2 c cs)
  show ?case
  proof (cases "matchNumberAt (c # cs)")
    case None
    then show ?thesis using 2 by simp
  next
    case (Some p)
    obtain m r where p: "p = (m, r)" by (cases p)
    from 2(3) Some p have "t = m \<or> t \<in> set (matchAllNumbers r)" by simp
    then show ?thesis
    proof
      assume "t = m"
      then show ?thesis using matchNumberAt_plain Some p by blast
    next
      assume "t \<in> set (matchAllNumbers r)"
      then show ?thesis using 2(2) [OF Some p [symmetric]] by simp
    qed
  qed
qed

lemma Number'_token: "t \<in> set (matchAllNumbers s) \<Longrightarrow> Number' rnd t = toDouble rnd (decimalValue t)"
  by (simp add: Number'_def matchAllNumbers_plain)

lemma Number'_tokens:
  "map (Number' rnd) (matchAllNumbers s) = map (\<lambda>t. toDouble rnd (decimalValue t)) (matchAllNumbers s)"
  by (simp add: Number'_token)

lemma Number'_tokens_not_NaN: "x \<in> set (map (Number' rnd) (matchAllNumbers s)) \<Longrightarrow> x \<noteq> NaN"
  by (auto simp: Number'_token toDouble_not_NaN)

section \<open>The parser on doubles: compose, then validate\<close>

lemma parseToDD'_composed:
  "parseToDD' rnd inp k =
     (case composedDegrees' rnd inp of Inl e \<Rightarrow> Inl e | Inr v \<Rightarrow> validated' k v)"
proof (cases inp)
  case (NumberIn x)
  then show ?thesis
    by (cases x) (simp_all add: parseToDD'_def ensureFinite'_def composedDegrees'_def)
next
  case (StringIn s)
  show ?thesis
  proof (cases "isPlainDecimal (trim s)")
    case True
    then show ?thesis using StringIn
      by (cases "toDouble rnd (decimalValue (trim s))")
         (simp_all add: parseToDD'_def ensureFinite'_def Number'_def composedDegrees'_def)
  next
    case False
    then show ?thesis using StringIn
      by (simp add: parseToDD'_def tokenPath'_def composedDegrees'_def Let_def
               split: list.splits option.splits)
  qed
next
  case OtherIn
  then show ?thesis
    by (simp add: parseToDD'_def composedDegrees'_def)
qed

lemma composed_sum2:
  assumes sp: "signPreserving rnd" and d: "d \<noteq> NaN" and m: "m \<noteq> NaN"
  shows "nonNegative (num_add rnd (num_trunc (num_abs d)) (num_div rnd (num_abs m) 60))"
  by (intro num_add_nonNegative [OF sp] num_trunc_nonNegative num_div_nonNegative [OF sp]
        num_abs_nonNegative d m) simp

lemma composed_sum3:
  assumes sp: "signPreserving rnd" and d: "d \<noteq> NaN" and m: "m \<noteq> NaN" and sc: "sc \<noteq> NaN"
  shows "nonNegative (num_add rnd (num_add rnd (num_trunc (num_abs d)) (num_div rnd (num_abs m) 60))
                        (num_div rnd (num_abs sc) 3600))"
  by (intro num_add_nonNegative [OF sp] composed_sum2 [OF sp] num_div_nonNegative [OF sp]
        num_abs_nonNegative d m sc) simp

lemma sign_choice_unit:
  "(case hm of Some h \<Rightarrow> Finite (hemiSign h) | None \<Rightarrow> signOr1' d) = Finite 1
   \<or> (case hm of Some h \<Rightarrow> Finite (hemiSign h) | None \<Rightarrow> signOr1' d) = Finite (- 1)"
  using signOr1'_unit [of d] by (cases hm) (simp_all add: hemiSign_def)

text \<open>
  No path of the parser composes a \<^verbatim>\<open>NaN\<close>: a token is never \<^verbatim>\<open>NaN\<close>, the sums are of
  numbers that are not negative, and the sign is never zero.
\<close>

lemma composedDegrees'_not_NaN:
  assumes sp: "signPreserving rnd" and c: "composedDegrees' rnd inp = Inr v"
  shows "v \<noteq> NaN"
proof (cases inp)
  case (NumberIn x)
  then show ?thesis using c by (cases x) (auto simp: composedDegrees'_def)
next
  case OtherIn
  then show ?thesis using c by (simp add: composedDegrees'_def)
next
  case (StringIn s)
  show ?thesis
  proof (cases "isPlainDecimal (trim s)")
    case True
    then show ?thesis using c StringIn
      by (cases "toDouble rnd (decimalValue (trim s))") (auto simp: composedDegrees'_def)
  next
    case False
    define raw where "raw = toUpperCase (trim s)"
    define hm where "hm = hemiMatch raw"
    define nums where "nums = map (Number' rnd) (matchAllNumbers raw)"
    have nn: "x \<in> set nums \<Longrightarrow> x \<noteq> NaN" for x
      unfolding nums_def by (rule Number'_tokens_not_NaN)
    have cd: "(case nums of
                  [] \<Rightarrow> Inl UnrecognizedFormat'
                | [d] \<Rightarrow> Inr (applyHemiToSign' d hm)
                | [d, m] \<Rightarrow>
                    if num_ge (num_abs m) (Finite 60) then Inl MinutesNotBelow60'
                    else Inr (num_mul rnd
                                (case hm of Some h \<Rightarrow> Finite (hemiSign h) | None \<Rightarrow> signOr1' d)
                                (num_add rnd (num_trunc (num_abs d)) (num_div rnd (num_abs m) 60)))
                | d # m # sc # _ \<Rightarrow>
                    if num_ge (num_abs m) (Finite 60) then Inl MinutesNotBelow60'
                    else if num_ge (num_abs sc) (Finite 60) then Inl SecondsNotBelow60'
                    else Inr (num_mul rnd
                                (case hm of Some h \<Rightarrow> Finite (hemiSign h) | None \<Rightarrow> signOr1' d)
                                (num_add rnd
                                   (num_add rnd (num_trunc (num_abs d)) (num_div rnd (num_abs m) 60))
                                   (num_div rnd (num_abs sc) 3600)))) = Inr v"
      using c False StringIn
      unfolding composedDegrees'_def Let_def raw_def hm_def nums_def by simp
    show ?thesis
    proof (cases nums)
      case Nil
      then show ?thesis using cd by simp
    next
      case (Cons d r1)
      note c1 = Cons
      have d: "d \<noteq> NaN" using nn c1 by simp
      show ?thesis
      proof (cases r1)
        case Nil
        then show ?thesis using cd c1 d by (auto simp: applyHemiToSign'_not_NaN)
      next
        case (Cons m r2)
        note c2 = Cons
        have m: "m \<noteq> NaN" using nn c1 c2 by simp
        show ?thesis
        proof (cases r2)
          case Nil
          then have "v = num_mul rnd
                           (case hm of Some h \<Rightarrow> Finite (hemiSign h) | None \<Rightarrow> signOr1' d)
                           (num_add rnd (num_trunc (num_abs d)) (num_div rnd (num_abs m) 60))"
            using cd c1 c2 by (auto split: if_splits)
          then show ?thesis
            using num_mul_unit_not_NaN [OF sign_choice_unit
                    nonNegative_not_NaN [OF composed_sum2 [OF sp d m]]]
            by simp
        next
          case (Cons sc r3)
          have sc: "sc \<noteq> NaN" using nn c1 c2 Cons by simp
          have "v = num_mul rnd
                      (case hm of Some h \<Rightarrow> Finite (hemiSign h) | None \<Rightarrow> signOr1' d)
                      (num_add rnd
                         (num_add rnd (num_trunc (num_abs d)) (num_div rnd (num_abs m) 60))
                         (num_div rnd (num_abs sc) 3600))"
            using cd c1 c2 Cons by (auto split: if_splits)
          then show ?thesis
            using num_mul_unit_not_NaN [OF sign_choice_unit
                    nonNegative_not_NaN [OF composed_sum3 [OF sp d m sc]]]
            by simp
        qed
      qed
    qed
  qed
qed

section \<open>Range invariant of the parser\<close>

text \<open>
  C3.  In double arithmetic, for every rounding that keeps signs, every input (number,
  string or other value) and every axis: a DD that \<open>parseToDD\<close> returns carries the
  requested axis and finite degrees of magnitude at most 90 for latitude and 180 for
  longitude; an input whose composed degree value lies outside the range of the axis
  (an infinity included) makes \<open>parseToDD\<close> raise the axis range error with that value;
  an input whose composed value lies inside the range is returned with it; and an input
  that has no composed value fails with the error that prevented it.
\<close>

theorem parseToDD_range_invariant:
  assumes "signPreserving rnd"
  shows "(parseToDD' rnd inp k = Inr dd \<longrightarrow> kind' dd = k \<and> inAxisRange k (degrees' dd))
   \<and> (composedDegrees' rnd inp = Inr v \<and> \<not> inAxisRange k v \<longrightarrow>
        parseToDD' rnd inp k = Inl (DegreesOutOfRange' k v))
   \<and> (composedDegrees' rnd inp = Inr v \<and> inAxisRange k v \<longrightarrow>
        parseToDD' rnd inp k = Inr \<lparr>kind' = k, degrees' = v\<rparr>)
   \<and> (composedDegrees' rnd inp = Inl e \<longrightarrow> parseToDD' rnd inp k = Inl e)"
proof (cases "composedDegrees' rnd inp")
  case (Inl e')
  then show ?thesis by (simp add: parseToDD'_composed)
next
  case (Inr w)
  have "w \<noteq> NaN" using composedDegrees'_not_NaN [OF assms Inr] .
  then show ?thesis using Inr
    by (auto simp: parseToDD'_composed validated'_cases split: if_splits)
qed

lemmas parse'_defs = parseToDD'_def tokenPath'_def composedDegrees'_def isPlainDecimal_def
  matchNumberAt_def isDigit_def trim_def isSpace_def ensureFinite'_def Number'_def toDouble_def
  decimalValue_def digitsValue_def validated'_def validateRange'_def num_gt_def inAxisRange_def
  toUpperCase_def upperChar_def hemiMatch_def hemiOfChar_def isWordChar_def applyHemiToSign'_def
  hemiSign_def trunc_def Let_def

lemma signPreserving_exact: "signPreserving Some"
  by (simp add: signPreserving_def)

lemma signPreserving_bounded: "signPreserving (\<lambda>x. if \<bar>x\<bar> \<le> 1000 then Some x else None)"
  by (simp add: signPreserving_def)

lemma signPreserving_round: "signPreserving (\<lambda>x. Some (of_int (round x)))"
  by (auto simp: signPreserving_def round_def)

text \<open>
  The theorem at three roundings.  With exact arithmetic, the string \<open>91\<close> for the latitude
  axis has the composed value 91, out of range, and \<open>45 30 S\<close> is returned as \<open>-45.5\<close>.
  With a rounding that overflows beyond 1000, the plain decimal \<open>5000\<close> becomes an
  infinity, has no composed value and fails as an invalid number, while in \<open>5000 N\<close> the
  infinite token is composed and raises the axis range error.  With rounding to whole
  numbers, \<open>90.4\<close> is the number 90 and is returned.
\<close>

theorem parseToDD_range_invariant_witness:
  "signPreserving Some
   \<and> composedDegrees' Some (StringIn ''91'') = Inr (Finite 91)
   \<and> \<not> inAxisRange LAT (Finite 91)
   \<and> parseToDD' Some (StringIn ''91'') LAT = Inl (DegreesOutOfRange' LAT (Finite 91))
   \<and> parseToDD' Some (StringIn ''45 30 S'') LAT = Inr \<lparr>kind' = LAT, degrees' = Finite (- 45.5)\<rparr>
   \<and> inAxisRange LAT (degrees' \<lparr>kind' = LAT, degrees' = Finite (- 45.5)\<rparr>)
   \<and> composedDegrees' (\<lambda>x. if \<bar>x\<bar> \<le> 1000 then Some x else None) (StringIn ''5000'')
       = Inl (InvalidNumber' ''decimal degrees'')
   \<and> parseToDD' (\<lambda>x. if \<bar>x\<bar> \<le> 1000 then Some x else None) (StringIn ''5000'') LAT
       = Inl (InvalidNumber' ''decimal degrees'')
   \<and> composedDegrees' (\<lambda>x. if \<bar>x\<bar> \<le> 1000 then Some x else None) (StringIn ''5000 N'')
       = Inr PosInfinity
   \<and> parseToDD' (\<lambda>x. if \<bar>x\<bar> \<le> 1000 then Some x else None) (StringIn ''5000 N'') LAT
       = Inl (DegreesOutOfRange' LAT PosInfinity)
   \<and> composedDegrees' (\<lambda>x. Some (of_int (round x))) (StringIn ''90.4'') = Inr (Finite 90)
   \<and> parseToDD' (\<lambda>x. Some (of_int (round x))) (StringIn ''90.4'') LAT
       = Inr \<lparr>kind' = LAT, degrees' = Finite 90\<rparr>"
proof -
  let ?ov = "\<lambda>x :: real. if \<bar>x\<bar> \<le> 1000 then Some x else None"
  let ?rd = "\<lambda>x :: real. Some (of_int (round x) :: real)"
  have c1: "composedDegrees' Some (StringIn ''91'') = Inr (Finite 91)"
    by (simp add: parse'_defs)
  have r1: "\<not> inAxisRange LAT (Finite 91)" by (simp add: inAxisRange_def)
  have p2: "parseToDD' Some (StringIn ''45 30 S'') LAT = Inr \<lparr>kind' = LAT, degrees' = Finite (- 45.5)\<rparr>"
    by (simp add: parse'_defs)
  have c3: "composedDegrees' ?ov (StringIn ''5000'') = Inl (InvalidNumber' ''decimal degrees'')"
    by (simp add: parse'_defs)
  have c4: "composedDegrees' ?ov (StringIn ''5000 N'') = Inr PosInfinity"
    by (simp add: parse'_defs)
  have r4: "\<not> inAxisRange LAT PosInfinity" by (simp add: inAxisRange_def)
  have c5: "composedDegrees' ?rd (StringIn ''90.4'') = Inr (Finite 90)"
    by (simp add: parse'_defs round_def)
  have r5: "inAxisRange LAT (Finite 90)" by (simp add: inAxisRange_def)
  note e = parseToDD_range_invariant [OF signPreserving_exact]
  note o = parseToDD_range_invariant [OF signPreserving_bounded]
  note d = parseToDD_range_invariant [OF signPreserving_round]
  have "parseToDD' Some (StringIn ''91'') LAT = Inl (DegreesOutOfRange' LAT (Finite 91))"
    using e [of "StringIn ''91''" LAT _ "Finite 91"] c1 r1 by blast
  moreover have "inAxisRange LAT (degrees' \<lparr>kind' = LAT, degrees' = Finite (- 45.5)\<rparr>)"
    using e [of "StringIn ''45 30 S''" LAT "\<lparr>kind' = LAT, degrees' = Finite (- 45.5)\<rparr>"] p2 by blast
  moreover have "parseToDD' ?ov (StringIn ''5000'') LAT = Inl (InvalidNumber' ''decimal degrees'')"
    using o [of "StringIn ''5000''" LAT _ _ "InvalidNumber' ''decimal degrees''"] c3 by blast
  moreover have "parseToDD' ?ov (StringIn ''5000 N'') LAT = Inl (DegreesOutOfRange' LAT PosInfinity)"
    using o [of "StringIn ''5000 N''" LAT _ PosInfinity] c4 r4 by blast
  moreover have "parseToDD' ?rd (StringIn ''90.4'') LAT = Inr \<lparr>kind' = LAT, degrees' = Finite 90\<rparr>"
    using d [of "StringIn ''90.4''" LAT _ "Finite 90"] c5 r5 by blast
  ultimately show ?thesis using signPreserving_exact c1 r1 p2 c3 c4 c5 by blast
qed

section \<open>From DM and DMS back to DD\<close>













section \<open>Round trip through DM\<close>

text \<open>
  C1, at an input where the round trip fails.  The latitude \<open>-0.99999\<close> lies in the
  valid range.  Its integer part is zero and its fractional minutes, \<open>59.9994\<close>, round
  to 60, so \<open>ddToDM\<close> rolls over; the test \<^verbatim>\<open>degInt >= 0\<close> holds for the zero integer
  part of this negative value, and the result is 1 degree, hemisphere N.  \<open>dmToDD\<close>
  maps it to \<open>+1\<close>, which is \<open>1.99999\<close> away from the input.
\<close>

theorem ddToDM_roundtrip_negative_fraction:
  "\<bar>degrees \<lparr>kind = LAT, degrees = - 0.99999\<rparr>\<bar> \<le> DEG_MAX LAT
   \<and> ddToDM \<lparr>kind = LAT, degrees = - 0.99999\<rparr> None
       = Inr \<lparr>kind = LAT, degrees = 1, minutes = 0, hemi = Some N\<rparr>
   \<and> dmToDD \<lparr>kind = LAT, degrees = 1, minutes = 0, hemi = Some N\<rparr>
       = Inr \<lparr>kind = LAT, degrees = 1\<rparr>
   \<and> \<bar>degrees \<lparr>kind = LAT, degrees = 1\<rparr> - degrees \<lparr>kind = LAT, degrees = - 0.99999\<rparr>\<bar> > 1 / 10 ^ 4"
  by (simp add: conv_defs)

text \<open>
  The extent of the failure.  Exactly the inputs in \<open>(-1, -11999/12000]\<close> come back
  as 1 degree in the positive hemisphere; every other input in the range of its axis
  makes the round trip within \<open>1/12000\<close> of a degree (half a hundredth of a minute).
\<close>

lemma trunc_signed: "trunc d = (if d \<ge> 0 then of_int \<lfloor>\<bar>d\<bar>\<rfloor> else - of_int \<lfloor>\<bar>d\<bar>\<rfloor>)"
  by (simp add: trunc_def ceiling_def)

lemma ddToDM_slip_region:
  assumes "- 1 < degrees dd" "degrees dd \<le> - (11999 / 12000)"
  shows "ddToDM dd None = Inr \<lparr>kind = kind dd, degrees = 1, minutes = 0,
                               hemi = Some (dirFromSign (kind dd) 1)\<rparr>"
    "dmToDD \<lparr>kind = kind dd, degrees = 1, minutes = 0, hemi = Some (dirFromSign (kind dd) 1)\<rparr>
       = Inr \<lparr>kind = kind dd, degrees = 1\<rparr>"
proof -
  define d where "d = degrees dd"
  have d: "- 1 < d" "d \<le> - (11999 / 12000)" using assms by (simp_all add: d_def)
  have "\<lceil>d\<rceil> = 0" using d by (simp add: ceiling_eq_iff)
  then have tr: "trunc d = 0" using d by (simp add: trunc_def)
  have fr: "\<bar>d - trunc d\<bar> * 60 = \<bar>d\<bar> * 60" by (simp add: tr)
  have b: "11999 / 12000 \<le> \<bar>d\<bar>" "\<bar>d\<bar> < 1" using d by (simp_all add: abs_if)
  have "6000 \<le> \<bar>d\<bar> * 60 * 100 + 1 / 2" "\<bar>d\<bar> * 60 * 100 + 1 / 2 < 6001"
    using b by linarith+
  then have fl: "\<lfloor>\<bar>d\<bar> * 60 * 100 + 1 / 2\<rfloor> = 6000" by linarith
  have "0 \<le> \<bar>d\<bar> * 60" "\<bar>d\<bar> * 60 < 60" using b by simp_all
  from round2_bounds(1) [OF this] have rf: "roundFixed (\<bar>d - trunc d\<bar> * 60) 2 = Inr 60"
    unfolding fr fl by simp
  have roll: "(if trunc d \<ge> 0 then trunc d + 1 else trunc d - 1) = 1" by (simp add: tr)
  have o: "opt_decimals None = 2" "opt_clamp None = False"
    by (simp_all add: opt_decimals_def opt_clamp_def)
  have c: "(60 :: real) \<ge> 60" "\<bar>1 :: real\<bar> = 1" by simp_all
  show "ddToDM dd None = Inr \<lparr>kind = kind dd, degrees = 1, minutes = 0,
                               hemi = Some (dirFromSign (kind dd) 1)\<rparr>"
    unfolding ddToDM_def Let_def d_def [symmetric] o
    by (simp only: if_False if_True rf sum.case c roll)
  show "dmToDD \<lparr>kind = kind dd, degrees = 1, minutes = 0, hemi = Some (dirFromSign (kind dd) 1)\<rparr>
       = Inr \<lparr>kind = kind dd, degrees = 1\<rparr>"
    by (cases "kind dd") (simp_all add: dmToDD_def applyHemiToSign_def dirFromSign_def validateRange_def)
qed

lemma ddToDM_roundtrip_outside_slip:
  assumes rng: "\<bar>degrees dd\<bar> \<le> DEG_MAX (kind dd)"
    and reg: "degrees dd \<le> - 1 \<or> - (11999 / 12000) < degrees dd"
  shows "\<exists>dm r. ddToDM dd None = Inr dm \<and> dmToDD dm = Inr r
           \<and> kind r = kind dd
           \<and> \<bar>degrees r - degrees dd\<bar> \<le> 1 / 12000"
proof -
  define d where "d = degrees dd"
  define k where "k = kind dd"
  define a where "a = \<bar>d\<bar>"
  define n where "n = \<lfloor>a\<rfloor>"
  define f where "f = a - of_int n"
  define y where "y = f * 60"
  define q where "q = of_int \<lfloor>y * 100 + 1 / 2\<rfloor> / (100 :: real)"
  have a0: "0 \<le> a" by (simp add: a_def)
  have n0: "0 \<le> n" using a0 by (simp add: n_def)
  have f0: "0 \<le> f" and f1: "f < 1" unfolding f_def n_def by linarith+
  have y0: "0 \<le> y" and y1: "y < 60" using f0 f1 by (simp_all add: y_def)
  note r = round2_bounds [OF y0 y1, folded q_def]
  have q60: "q \<le> 60" by (rule r(4))
  have tr: "trunc d = (if d \<ge> 0 then of_int n else - of_int n)"
    unfolding n_def a_def by (rule trunc_signed)
  have at: "\<bar>trunc d\<bar> = of_int n"
    unfolding n_def a_def by (rule trunc_decomp(1))
  have fr: "\<bar>d - trunc d\<bar> = f"
    unfolding f_def n_def a_def by (rule trunc_decomp(2))
  have rf: "roundFixed (\<bar>d - trunc d\<bar> * 60) 2 = Inr q"
    using r(1) by (simp add: fr y_def)
  have aeq: "a = of_int n + y / 60" by (simp add: y_def f_def field_simps)
  have am: "a \<le> DEG_MAX k" using rng by (simp add: a_def d_def k_def)
  show ?thesis
  proof (cases "q \<ge> 60")
    case False
    define t where "t = of_int n + q / 60"
    define dm where "dm = \<lparr>kind = k, degrees = of_int n, minutes = q,
       hemi = Some (dirFromSign k d)\<rparr>"
    have res: "ddToDM dd None = Inr dm"
      unfolding ddToDM_def opt_decimals_def opt_clamp_def Let_def d_def [symmetric] k_def [symmetric]
      using False by (simp add: rf dm_def at)
    have t0: "0 \<le> t" using n0 r(3) by (simp add: t_def)
    have "t \<le> of_int \<lfloor>a\<rfloor> + 1" using False by (simp add: t_def n_def)
    moreover have "a = of_int \<lfloor>a\<rfloor> \<longrightarrow> t = a"
    proof
      assume "a = of_int \<lfloor>a\<rfloor>"
      then have "f = 0" by (simp add: f_def n_def)
      then have "q = 0" by (simp add: q_def y_def)
      then show "t = a" using \<open>f = 0\<close> by (simp add: t_def f_def)
    qed
    ultimately have tm: "t \<le> DEG_MAX k" using below_DEG_MAX [of a k t] a0 am by simp
    define r' where "r' = \<lparr>kind = k, degrees = (if d \<ge> 0 then t else - t)\<rparr>"
    have bk: "dmToDD dm = Inr r'"
      using False r(3) n0 t0 tm
      by (simp add: dmToDD_def Let_def dm_def validateRange_def r'_def t_def [symmetric]
            applyHemiToSign_dirFromSign)
    have "\<bar>degrees r' - d\<bar> = \<bar>t - a\<bar>"
      unfolding r'_def a_def by (cases "d \<ge> 0") (simp_all add: abs_if)
    also have "\<dots> \<le> 1 / 12000" using r(2) unfolding t_def aeq by linarith
    finally have "\<bar>degrees r' - degrees dd\<bar> \<le> 1 / 12000" by (simp add: d_def)
    moreover have "kind r' = kind dd" by (simp add: r'_def k_def)
    ultimately show ?thesis using res bk by blast
  next
    case True
    then have q: "q = 60" using q60 by simp
    have ylo: "59995 / 1000 \<le> y" using r(2) q by linarith
    then have flo: "11999 / 12000 \<le> f" by (simp add: y_def)
    have dreg: "d \<ge> 0 \<or> d \<le> - 1"
    proof (rule ccontr)
      assume "\<not> (d \<ge> 0 \<or> d \<le> - 1)"
      then have "- 1 < d" "d < 0" by simp_all
      then have "a < 1" "0 < a" by (simp_all add: a_def)
      then have "n = 0" by (simp add: n_def floor_eq_iff)
      then have "f = a" by (simp add: f_def)
      then have "d \<le> - (11999 / 12000)" using flo \<open>d < 0\<close> by (simp add: a_def)
      then show False using reg \<open>- 1 < d\<close> by (simp add: d_def)
    qed
    define t where "t = of_int n + (1 :: real)"
    define rolled where "rolled = (if d \<ge> 0 then t else - t)"
    define dm where "dm = \<lparr>kind = k, degrees = t, minutes = 0,
       hemi = Some (dirFromSign k rolled)\<rparr>"
    have t0: "0 < t" using n0 by (simp add: t_def)
    have n1: "d < 0 \<Longrightarrow> 1 \<le> n"
    proof -
      assume "d < 0"
      then have "1 \<le> a" using dreg by (simp add: a_def)
      then show "1 \<le> n" by (simp add: n_def le_floor_iff)
    qed
    have roll: "(if trunc d \<ge> 0 then trunc d + 1 else trunc d - 1) = rolled"
    proof (cases "d \<ge> 0")
      case True
      then show ?thesis using n0 by (simp add: tr rolled_def t_def)
    next
      case False
      then have "1 \<le> n" using n1 by simp
      then have "\<not> (0 :: real) \<le> - of_int n" by simp
      then show ?thesis using False by (simp add: tr rolled_def t_def)
    qed
    have ar: "\<bar>rolled\<bar> = t" using t0 by (simp add: rolled_def)
    have o: "opt_decimals None = 2" "opt_clamp None = False"
      by (simp_all add: opt_decimals_def opt_clamp_def)
    have res: "ddToDM dd None = Inr dm"
      unfolding ddToDM_def Let_def d_def [symmetric] k_def [symmetric] o
      by (simp only: if_False if_True rf sum.case True roll ar dm_def)
    have fpos: "0 < f" using flo by simp
    have "a \<noteq> of_int \<lfloor>a\<rfloor>" using fpos by (simp add: f_def n_def)
    then have tm: "t \<le> DEG_MAX k"
      using below_DEG_MAX [of a k t] a0 am by (simp add: t_def n_def)
    have sg: "applyHemiToSign t (Some (dirFromSign k rolled)) = rolled"
      using t0 by (cases k) (simp_all add: applyHemiToSign_def dirFromSign_def rolled_def)
    define r' where "r' = \<lparr>kind = k, degrees = rolled\<rparr>"
    have rb: "\<not> rolled < - DEG_MAX k" "\<not> DEG_MAX k < rolled"
      using ar tm by linarith+
    have bk: "dmToDD dm = Inr r'"
      using t0 rb
      by (simp add: dmToDD_def Let_def dm_def validateRange_def r'_def sg)
    have "\<bar>degrees r' - d\<bar> = \<bar>t - a\<bar>"
      unfolding r'_def rolled_def a_def by (cases "d \<ge> 0") (simp_all add: abs_if)
    also have "\<dots> \<le> 1 / 12000" using ylo y1 unfolding t_def aeq by linarith
    finally have "\<bar>degrees r' - degrees dd\<bar> \<le> 1 / 12000" by (simp add: d_def)
    moreover have "kind r' = kind dd" by (simp add: r'_def k_def)
    ultimately show ?thesis using res bk by blast
  qed
qed


end
